(* ===== verification/Prelude.thy ===== *)
theory Prelude
  imports Complex_Main "HOL-Library.Finite_Map" "HOL-Library.AList" "HOL-Library.Sublist"
begin

text \<open>
  Shared vocabulary of the development: how Python's strings, dictionaries, queues and
  exceptions are written in HOL, and the generic lemmas on them.

  \<^item> Identifiers and dictionary keys (message ids, tool names, JSON keys) are
    \<open>string\<close>s: the code only compares and prefixes them.
  \<^item> Text that the code measures, splits or folds (message content, client context, run
    previews) is a \<open>ustr\<close>, the list of its Unicode code points, so that \<open>length\<close> and
    slices count what Python counts.
  \<^item> A dictionary whose iteration order matters is an association list updated with
    \<open>AList.update\<close>, which keeps the place of a known key and appends a new one, as a
    Python \<open>dict\<close> does. A dictionary that is only looked up is a map.
  \<^item> A function that may raise returns a sum, the exception on the left.
\<close>

named_theorems view_defs \<open>the handlers of the endpoints and the tests they start with\<close>

section \<open>Text\<close>

type_synonym ustr = "nat list"

definition ustr :: "string \<Rightarrow> ustr" where
  "ustr s = map of_char s"

lemma ustr_Nil [simp]: "ustr [] = []"
  by (simp add: ustr_def)

lemma ustr_eq_Nil [simp]: "ustr s = [] \<longleftrightarrow> s = []"
  by (simp add: ustr_def)

lemma Nil_eq_ustr [simp]: "[] = ustr s \<longleftrightarrow> s = []"
  by (auto simp: ustr_def)

lemma length_ustr [simp]: "length (ustr s) = length s"
  by (simp add: ustr_def)

lemma ustr_eq_iff [simp]: "ustr s = ustr t \<longleftrightarrow> s = t"
  by (simp add: ustr_def inj_map_eq_map inj_def)

lemma ustr_append: "ustr (s @ t) = ustr s @ ustr t"
  by (simp add: ustr_def)

abbreviation newline :: nat where
  "newline \<equiv> 10"

text \<open>\<open>text.replace("\n", "")\<close>.\<close>

definition without_newlines :: "ustr \<Rightarrow> ustr" where
  "without_newlines t = filter (\<lambda>c. c \<noteq> newline) t"

lemma without_newlines_append [simp]:
  "without_newlines (s @ t) = without_newlines s @ without_newlines t"
  by (simp add: without_newlines_def)

lemma without_newlines_idem [simp]:
  "without_newlines (without_newlines t) = without_newlines t"
  by (simp add: without_newlines_def)

lemma without_newlines_Nil [simp]: "without_newlines [] = []"
  by (simp add: without_newlines_def)

text \<open>
  The code points \<open>str.isspace\<close> accepts, which is also what \<open>str.strip\<close>,
  \<open>str.split\<close> and the regular expression \<open>\s\<close> treat as white space.
\<close>

definition is_space :: "nat \<Rightarrow> bool" where
  "is_space c \<longleftrightarrow>
     (9 \<le> c \<and> c \<le> 13) \<or> (28 \<le> c \<and> c \<le> 32) \<or> c = 133 \<or> c = 160 \<or> c = 5760 \<or>
     (8192 \<le> c \<and> c \<le> 8202) \<or> c = 8232 \<or> c = 8233 \<or> c = 8239 \<or> c = 8287 \<or> c = 12288"

definition lstrip :: "ustr \<Rightarrow> ustr" where
  "lstrip t = dropWhile is_space t"

definition rstrip :: "ustr \<Rightarrow> ustr" where
  "rstrip t = rev (dropWhile is_space (rev t))"

definition strip :: "ustr \<Rightarrow> ustr" where
  "strip t = rstrip (lstrip t)"

lemma rstrip_Nil_iff: "rstrip t = [] \<longleftrightarrow> (\<forall>c \<in> set t. is_space c)"
  by (simp add: rstrip_def dropWhile_eq_Nil_conv)

lemma length_rstrip_le: "length (rstrip t) \<le> length t"
  by (simp add: rstrip_def) (metis length_dropWhile_le length_rev)

lemma length_strip_le: "length (strip t) \<le> length t"
  unfolding strip_def lstrip_def
  using length_rstrip_le length_dropWhile_le le_trans by blast

lemma strip_Nil_iff: "strip t = [] \<longleftrightarrow> (\<forall>c \<in> set t. is_space c)"
proof -
  have "(\<forall>c \<in> set (dropWhile is_space t). is_space c) \<longleftrightarrow> (\<forall>c \<in> set t. is_space c)"
    by (metis dropWhile_eq_Nil_conv dropWhile_idem hd_dropWhile list.set_sel(1) set_dropWhileD)
  then show ?thesis by (simp add: strip_def lstrip_def rstrip_Nil_iff)
qed

text \<open>\<open>str(n)\<close>: the decimal digits of a number.\<close>

fun digits :: "nat \<Rightarrow> ustr" where
  "digits n = (if n < 10 then [48 + n] else digits (n div 10) @ [48 + n mod 10])"

declare digits.simps [simp del]

definition decimal :: "int \<Rightarrow> ustr" where
  "decimal i = (if i < 0 then 45 # digits (nat (- i)) else digits (nat i))"

lemma digits_range: "d \<in> set (digits n) \<Longrightarrow> 48 \<le> d \<and> d \<le> 57"
proof (induction n rule: digits.induct)
  case (1 n)
  show ?case
  proof (cases "n < 10")
    case True
    with 1(2) show ?thesis by (subst (asm) digits.simps) auto
  next
    case False
    then have "d \<in> set (digits (n div 10)) \<or> d = 48 + n mod 10"
      using 1(2) by (subst (asm) digits.simps) auto
    with 1(1) [OF False] show ?thesis by auto
  qed
qed

definition undigits :: "ustr \<Rightarrow> nat" where
  "undigits = foldl (\<lambda>a d. a * 10 + (d - 48)) 0"

lemma undigits_digits [simp]: "undigits (digits n) = n"
proof (induction n rule: digits.induct)
  case (1 n)
  show ?case
  proof (cases "n < 10")
    case True
    then show ?thesis by (subst digits.simps) (simp add: undigits_def)
  next
    case False
    then have "undigits (digits (n div 10) @ [48 + n mod 10]) = n"
      using 1 [OF False] by (simp add: undigits_def)
    with False show ?thesis by (subst digits.simps) simp
  qed
qed

lemma digits_inj: "digits m = digits n \<Longrightarrow> m = n"
  by (metis undigits_digits)

text \<open>\<open>text.split()\<close>: the words between runs of white space.\<close>

function split_words :: "ustr \<Rightarrow> ustr list" where
  "split_words t =
     (let rest = lstrip t in
      if rest = [] then []
      else takeWhile (\<lambda>c. \<not> is_space c) rest # split_words (dropWhile (\<lambda>c. \<not> is_space c) rest))"
  by pat_completeness auto

termination
proof (relation "measure length")
  fix t rest :: ustr
  assume rest: "rest = lstrip t" "rest \<noteq> []"
  have "length (dropWhile (\<lambda>c. \<not> is_space c) rest) < length rest"
  proof (cases rest)
    case (Cons c cs)
    with rest(1) have "\<not> is_space c"
      by (metis hd_dropWhile list.sel(1) list.distinct(1) lstrip_def)
    with Cons show ?thesis by (simp add: length_dropWhile_le less_Suc_eq_le)
  qed (use rest in simp)
  moreover have "length rest \<le> length t"
    using rest by (simp add: lstrip_def length_dropWhile_le)
  ultimately show "(dropWhile (\<lambda>c. \<not> is_space c) rest, t) \<in> measure length" by simp
qed simp

declare split_words.simps [simp del]

section \<open>Dictionaries\<close>

text \<open>\<open>d.setdefault(k, v)\<close> on a dictionary whose order matters.\<close>

definition setdefault :: "'k \<Rightarrow> 'v \<Rightarrow> ('k \<times> 'v) list \<Rightarrow> ('k \<times> 'v) list" where
  "setdefault k v d = (if k \<in> fst ` set d then d else d @ [(k, v)])"

lemma map_of_setdefault:
  "map_of (setdefault k v d) =
     (case map_of d k of None \<Rightarrow> (map_of d)(k \<mapsto> v) | Some _ \<Rightarrow> map_of d)"
proof (cases "map_of d k")
  case None
  then have "k \<notin> fst ` set d" by (simp add: map_of_eq_None_iff)
  moreover from None have "map_of (d @ [(k, v)]) = (map_of d)(k \<mapsto> v)"
    by (auto simp: map_add_def fun_eq_iff split: option.splits)
  ultimately show ?thesis using None by (simp add: setdefault_def)
next
  case (Some w)
  then have "k \<in> fst ` set d" by (metis domI dom_map_of_conv_image_fst)
  with Some show ?thesis by (simp add: setdefault_def)
qed

lemma keys_setdefault:
  "map fst (setdefault k v d) = (if k \<in> fst ` set d then map fst d else map fst d @ [k])"
  by (simp add: setdefault_def)

lemma distinct_setdefault:
  "distinct (map fst d) \<Longrightarrow> distinct (map fst (setdefault k v d))"
  by (auto simp: setdefault_def)

lemma keys_update:
  "map fst (AList.update k v d) = (if k \<in> fst ` set d then map fst d else map fst d @ [k])"
  by (simp add: update_keys)

lemma update_middle:
  "k \<notin> fst ` set us \<Longrightarrow> AList.update k v (us @ (k, w) # vs) = us @ (k, v) # vs"
  by (induction us) auto

lemma update_new: "k \<notin> fst ` set us \<Longrightarrow> AList.update k v us = us @ [(k, v)]"
  by (induction us) auto

lemma map_of_rev: "distinct (map fst d) \<Longrightarrow> (k, v) \<in> set d \<Longrightarrow> map_of (rev d) k = Some v"
  by (rule map_of_is_SomeI) (simp_all add: rev_map [symmetric])

text \<open>\<open>d.setdefault(k, []).append(v)\<close>.\<close>

definition dict_append :: "'k \<Rightarrow> 'v \<Rightarrow> ('k \<times> 'v list) list \<Rightarrow> ('k \<times> 'v list) list" where
  "dict_append k v d =
     (case map_of d k of None \<Rightarrow> d @ [(k, [v])] | Some vs \<Rightarrow> AList.update k (vs @ [v]) d)"

lemma map_of_snoc_new: "map_of d k = None \<Longrightarrow> map_of (d @ [(k, v)]) = (map_of d)(k \<mapsto> v)"
  by (auto simp: map_add_def fun_eq_iff split: option.splits)

lemma map_of_dict_append:
  "map_of (dict_append k v d) =
     (map_of d)(k \<mapsto> (case map_of d k of None \<Rightarrow> [v] | Some vs \<Rightarrow> vs @ [v]))"
proof (cases "map_of d k")
  case None
  then show ?thesis
    by (simp add: dict_append_def map_of_snoc_new del: map_of_append)
next
  case (Some vs)
  then show ?thesis by (simp add: dict_append_def update_conv')
qed

lemma keys_dict_append:
  "map fst (dict_append k v d) = (if k \<in> fst ` set d then map fst d else map fst d @ [k])"
proof (cases "map_of d k")
  case None
  then have "k \<notin> fst ` set d" by (simp add: map_of_eq_None_iff)
  with None show ?thesis by (simp add: dict_append_def)
next
  case (Some vs)
  then have "k \<in> fst ` set d" by (metis domI dom_map_of_conv_image_fst)
  with Some show ?thesis by (simp add: dict_append_def keys_update)
qed

lemma distinct_dict_append:
  "distinct (map fst d) \<Longrightarrow> distinct (map fst (dict_append k v d))"
  by (auto simp: keys_dict_append)

lemma fmdrop_fmupd_key [simp]: "fmdrop k (fmupd k v m) = fmdrop k m"
  by (intro fmap_ext) simp

section \<open>Queues kept under a key\<close>

text \<open>\<open>queues.setdefault(k, deque()).append(v)\<close> and \<open>_take(queues, k)\<close>.\<close>

definition enqueue :: "'k \<Rightarrow> 'v \<Rightarrow> ('k \<rightharpoonup> 'v list) \<Rightarrow> ('k \<rightharpoonup> 'v list)" where
  "enqueue k v q = q(k \<mapsto> (case q k of None \<Rightarrow> [v] | Some vs \<Rightarrow> vs @ [v]))"

definition queued :: "('k \<rightharpoonup> 'v list) \<Rightarrow> 'k \<Rightarrow> 'v list" where
  "queued q k = (case q k of None \<Rightarrow> [] | Some vs \<Rightarrow> vs)"

lemma queued_empty [simp]: "queued Map.empty k = []"
  by (simp add: queued_def)

lemma queued_upd [simp]: "queued (q(k \<mapsto> vs)) j = (if j = k then vs else queued q j)"
  by (simp add: queued_def)

lemma queued_enqueue: "queued (enqueue k v q) j = (if j = k then queued q k @ [v] else queued q j)"
  by (simp add: enqueue_def queued_def split: option.split)

lemma queued_fold_enqueue:
  "queued (fold (\<lambda>(k, v). enqueue k v) kvs q) j =
     queued q j @ map snd (filter (\<lambda>kv. fst kv = j) kvs)"
  by (induction kvs arbitrary: q) (auto simp: queued_enqueue split: prod.splits)

section \<open>Search in a list\<close>

text \<open>The index of the first element that satisfies a test: \<open>next((i for ...), None)\<close>.\<close>

fun find_index :: "('a \<Rightarrow> bool) \<Rightarrow> 'a list \<Rightarrow> nat option" where
  "find_index p [] = None"
| "find_index p (x # xs) = (if p x then Some 0 else map_option Suc (find_index p xs))"

lemma find_index_None: "find_index p xs = None \<longleftrightarrow> (\<forall>x \<in> set xs. \<not> p x)"
  by (induction xs) auto

lemma find_index_SomeD:
  "find_index p xs = Some i \<Longrightarrow> i < length xs \<and> p (xs ! i) \<and> (\<forall>x \<in> set (take i xs). \<not> p x)"
  by (induction xs arbitrary: i) (auto split: if_splits)

text \<open>The last element that satisfies a test: \<open>for item in reversed(items): if ...: return\<close>.\<close>

definition find_last :: "('a \<Rightarrow> bool) \<Rightarrow> 'a list \<Rightarrow> 'a option" where
  "find_last p xs = find p (rev xs)"

lemma map_filter_append: "List.map_filter f (xs @ ys) = List.map_filter f xs @ List.map_filter f ys"
  by (induction xs) (simp_all add: map_filter_simps split: option.split)

lemma map_filter_mem:
  "y \<in> set (List.map_filter f xs) \<longleftrightarrow> (\<exists>x \<in> set xs. f x = Some y)"
  by (induction xs) (auto simp: map_filter_simps split: option.split)

lemma distinct_subseq: "subseq xs ys \<Longrightarrow> distinct ys \<Longrightarrow> distinct xs"
  by (metis subseq_conv_nths distinct_nthsI)

section \<open>Exceptions\<close>

text \<open>Sequencing of computations that may raise.\<close>

fun bind_result :: "'e + 'a \<Rightarrow> ('a \<Rightarrow> 'e + 'b) \<Rightarrow> 'e + 'b" where
  "bind_result (Inl e) f = Inl e"
| "bind_result (Inr a) f = f a"

lemma bind_result_InrD:
  "bind_result r f = Inr b \<Longrightarrow> \<exists>a. r = Inr a \<and> f a = Inr b"
  by (cases r) auto

lemma bind_result_Inr: "bind_result r f = Inr b \<longleftrightarrow> (\<exists>a. r = Inr a \<and> f a = Inr b)"
  by (cases r) simp_all

text \<open>Simplification of the first computation before the second is looked at.\<close>

lemma bind_result_weak: "r = r' \<Longrightarrow> bind_result r f = bind_result r' f"
  by simp

lemma bind_result_id [simp]: "bind_result r Inr = r"
  by (cases r) simp_all

lemma bind_result_Inl: "bind_result r f = Inl e \<longleftrightarrow> r = Inl e \<or> (\<exists>a. r = Inr a \<and> f a = Inl e)"
  by (cases r) auto

end
