(* ===== verification/Wire.thy ===== *)
theory Wire
  imports Prelude
begin

text \<open>
  The AG-UI wire records the package reads and writes: JSON values, conversation messages
  and stream events. The models themselves belong to \<open>ag_ui.core\<close>; what is written here is
  the fields the code of this repository touches, with the kinds of message and event it
  tells apart by \<open>isinstance\<close>. Copying a record with one field changed
  (\<open>model_copy(update=...)\<close>) is a record update.
\<close>

section \<open>JSON values\<close>

datatype json =
    JNull
  | JBool bool
  | JInt int
  | JFloat rat
  | JStr ustr
  | JList "json list"
  | JObj "(string, json) fmap"

type_synonym dict = "(string, json) fmap"

text \<open>
  Python compares numbers by value across its types (\<open>1 == 1.0 == True\<close>) and dictionaries
  without regard to order. \<open>canonical\<close> picks one representative of each class, so that
  Python's \<open>==\<close> is equality of representatives.
\<close>

primrec canonical :: "json \<Rightarrow> json" where
  "canonical JNull = JNull"
| "canonical (JBool b) = JInt (if b then 1 else 0)"
| "canonical (JInt i) = JInt i"
| "canonical (JFloat r) = (if r = of_int (floor r) then JInt (floor r) else JFloat r)"
| "canonical (JStr s) = JStr s"
| "canonical (JList xs) = JList (map canonical xs)"
| "canonical (JObj m) = JObj (fmmap canonical m)"

definition dict_eq :: "dict \<Rightarrow> dict \<Rightarrow> bool" where
  "dict_eq a b \<longleftrightarrow> fmmap canonical a = fmmap canonical b"

lemma dict_eq_refl [simp]: "dict_eq a a"
  by (simp add: dict_eq_def)

lemma dict_eq_sym: "dict_eq a b \<Longrightarrow> dict_eq b a"
  by (simp add: dict_eq_def)

text \<open>Truth of a value: \<open>bool(value)\<close>.\<close>

primrec truthy :: "json \<Rightarrow> bool" where
  "truthy JNull = False"
| "truthy (JBool b) = b"
| "truthy (JInt i) = (i \<noteq> 0)"
| "truthy (JFloat r) = (r \<noteq> 0)"
| "truthy (JStr s) = (s \<noteq> [])"
| "truthy (JList xs) = (xs \<noteq> [])"
| "truthy (JObj m) = (m \<noteq> fmempty)"

section \<open>Messages\<close>

datatype input_source = DataSource ustr | UrlSource ustr | FileSource ustr

datatype input_part = TextPart ustr | SourcePart string input_source

datatype user_content = PlainText ustr | ContentParts "input_part list"

record tool_call =
  call_id :: string
  call_name :: string
  call_arguments :: ustr

datatype payload =
    UserMsg user_content
  | SystemMsg ustr
  | AssistantMsg "ustr option" "tool_call list option"
  | ToolMsg ustr string
  | ReasoningMsg ustr
  | ActivityMsg string dict

record message =
  msg_id :: string
  msg_metadata :: "dict option"
  msg_extra :: dict
  payload :: payload

definition plain_message :: "string \<Rightarrow> payload \<Rightarrow> message" where
  "plain_message i p = \<lparr>msg_id = i, msg_metadata = None, msg_extra = fmempty, payload = p\<rparr>"

lemma plain_message_sel [simp]:
  "msg_id (plain_message i p) = i" "payload (plain_message i p) = p"
  "msg_metadata (plain_message i p) = None" "msg_extra (plain_message i p) = fmempty"
  by (simp_all add: plain_message_def)

text \<open>The message without its id: what a copy under another id keeps.\<close>

definition body :: "message \<Rightarrow> message" where
  "body m = m\<lparr>msg_id := []\<rparr>"

lemma body_copy [simp]: "body (m\<lparr>msg_id := i\<rparr>) = body m"
  by (simp add: body_def)

lemma body_eq_iff:
  "body m = body n \<longleftrightarrow>
     msg_metadata m = msg_metadata n \<and> msg_extra m = msg_extra n \<and> payload m = payload n"
  by (cases m; cases n) (simp add: body_def)

lemma same_body_and_id: "body m = body n \<Longrightarrow> msg_id m = msg_id n \<Longrightarrow> m = n"
  by (cases m; cases n) (simp add: body_def)

text \<open>\<open>message.tool_calls or ()\<close>, for a message that has the field.\<close>

definition calls_of :: "tool_call list option \<Rightarrow> tool_call list" where
  "calls_of cs = (case cs of None \<Rightarrow> [] | Some xs \<Rightarrow> xs)"

lemma calls_of_simps [simp]: "calls_of None = []" "calls_of (Some xs) = xs"
  by (simp_all add: calls_of_def)

fun is_tool_message :: "message \<Rightarrow> bool" where
  "is_tool_message m = (case payload m of ToolMsg _ _ \<Rightarrow> True | _ \<Rightarrow> False)"

section \<open>Events\<close>

record tool_result =
  res_message_id :: string
  res_call_id :: string
  res_content :: ustr
  res_metadata :: "dict option"
  res_extra :: dict

record interrupt =
  int_id :: string
  int_call_id :: "string option"
  int_metadata :: "dict option"

text \<open>One JSON Patch operation of an activity delta.\<close>

record patch_op =
  po_op :: string
  po_path :: ustr
  po_value :: json

datatype run_outcome = RunSuccess | RunInterrupted "interrupt list"

datatype event =
    TextMessageStart string
  | TextMessageContent string ustr
  | ToolCallStart string string "string option"
  | ToolCallArgs string ustr
  | ToolCallEnd string
  | ToolCallResult tool_result
  | ReasoningStart string
  | ReasoningMessageContent string ustr
  | ActivitySnapshot string string dict "bool option"
  | ActivityDelta string string "patch_op list"
  | RunError ustr
  | RunFinished "run_outcome option"
  | SubagentStarted string ustr string
  | SubagentFinished string
  | SubagentError string ustr
  | CustomEvent string dict
  | OtherEvent string

text \<open>The name of an event's \<open>EventType\<close> member.\<close>

primrec event_type :: "event \<Rightarrow> string" where
  "event_type (TextMessageStart _) = ''TEXT_MESSAGE_START''"
| "event_type (TextMessageContent _ _) = ''TEXT_MESSAGE_CONTENT''"
| "event_type (ToolCallStart _ _ _) = ''TOOL_CALL_START''"
| "event_type (ToolCallArgs _ _) = ''TOOL_CALL_ARGS''"
| "event_type (ToolCallEnd _) = ''TOOL_CALL_END''"
| "event_type (ToolCallResult _) = ''TOOL_CALL_RESULT''"
| "event_type (ReasoningStart _) = ''REASONING_START''"
| "event_type (ReasoningMessageContent _ _) = ''REASONING_MESSAGE_CONTENT''"
| "event_type (ActivitySnapshot _ _ _ _) = ''ACTIVITY_SNAPSHOT''"
| "event_type (ActivityDelta _ _ _) = ''ACTIVITY_DELTA''"
| "event_type (RunError _) = ''RUN_ERROR''"
| "event_type (RunFinished _) = ''RUN_FINISHED''"
| "event_type (SubagentStarted _ _ _) = ''SUBAGENT_STARTED''"
| "event_type (SubagentFinished _) = ''SUBAGENT_FINISHED''"
| "event_type (SubagentError _ _) = ''SUBAGENT_ERROR''"
| "event_type (CustomEvent _ _) = ''CUSTOM''"
| "event_type (OtherEvent t) = t"

end
