(* ===== verification/StripBinary.thy ===== *)
theory StripBinary
  imports Wire
begin

text \<open>
  Removal of inlined file bytes from the messages a run produced, before they are stored:
  \<open>agent/strip_binary_content.py\<close>. Only a user message has a list for its content.
\<close>

fun is_inline_binary :: "input_part \<Rightarrow> bool" where
  "is_inline_binary (TextPart _) = False"
| "is_inline_binary (SourcePart _ (DataSource _)) = True"
| "is_inline_binary (SourcePart _ _) = False"

fun strip_message :: "message \<Rightarrow> message option" where
  "strip_message m =
     (case payload m of
        UserMsg (ContentParts content) \<Rightarrow>
          (let kept = filter (\<lambda>part. \<not> is_inline_binary part) content in
           if kept = [] then None
           else if length kept = length content then Some m
           else Some (m\<lparr>payload := UserMsg (ContentParts kept)\<rparr>))
      | _ \<Rightarrow> Some m)"

definition strip_binary_content :: "message list \<Rightarrow> message list" where
  "strip_binary_content ms = List.map_filter strip_message ms"

section \<open>What is kept\<close>

definition content_parts :: "message \<Rightarrow> input_part list" where
  "content_parts m = (case payload m of UserMsg (ContentParts ps) \<Rightarrow> ps | _ \<Rightarrow> [])"

definition has_content_list :: "message \<Rightarrow> bool" where
  "has_content_list m = (case payload m of UserMsg (ContentParts ps) \<Rightarrow> True | _ \<Rightarrow> False)"

lemma filter_length_eq: "length (filter p xs) = length xs \<Longrightarrow> filter p xs = xs"
  by (metis filter_True length_filter_less less_irrefl)

lemma strip_message_parts:
  "(case strip_message m of None \<Rightarrow> [] | Some n \<Rightarrow> content_parts n)
     = filter (\<lambda>p. \<not> is_inline_binary p) (content_parts m)"
  by (auto simp: content_parts_def Let_def split: payload.split user_content.split
      dest: filter_length_eq)

lemma strip_message_plain: "\<not> has_content_list m \<Longrightarrow> strip_message m = Some m"
  by (auto simp: has_content_list_def split: payload.splits user_content.splits)

lemma strip_message_list:
  "has_content_list m \<Longrightarrow> strip_message m = Some n \<Longrightarrow> has_content_list n \<and> content_parts n \<noteq> []"
  by (auto simp: has_content_list_def content_parts_def Let_def
      split: payload.splits user_content.splits if_splits)

lemma strip_message_keeps_rest:
  "strip_message m = Some n \<Longrightarrow>
     msg_id n = msg_id m \<and> msg_metadata n = msg_metadata m \<and> msg_extra n = msg_extra m"
  by (auto simp: Let_def split: payload.splits user_content.splits if_splits)

lemma strip_message_clean:
  assumes "filter (\<lambda>p. \<not> is_inline_binary p) (content_parts n) = content_parts n"
    and "has_content_list n \<Longrightarrow> content_parts n \<noteq> []"
  shows "strip_message n = Some n"
  using assms
  by (cases "payload n") (auto simp: has_content_list_def content_parts_def split: user_content.split)

lemma strip_binary_parts:
  "concat (map content_parts (strip_binary_content ms))
     = filter (\<lambda>p. \<not> is_inline_binary p) (concat (map content_parts ms))"
proof (induction ms)
  case (Cons m ms)
  then show ?case
    using strip_message_parts [of m]
    by (cases "strip_message m")
       (simp_all add: strip_binary_content_def map_filter_simps del: strip_message.simps)
qed (simp add: strip_binary_content_def map_filter_simps)


end
