(* ===== verification/Outcome.thy ===== *)
theory Outcome
  imports Wire
begin

text \<open>
  How a tool call's outcome reaches the client: \<open>agent/stamp_outcome.py\<close> and
  \<open>agent/outcome_agui_adapter.py\<close>. The live \<open>TOOL_CALL_RESULT\<close> and the stored tool
  message carry the outcome on the same two places, a top-level key and the record's
  \<open>metadata\<close>, and only a call that neither succeeded nor is being retried carries one.

  The messages of pydantic-ai are reduced to the parts the code tells apart. Upstream's
  own \<open>dump_messages\<close> and its result handlers are parameters.
\<close>

section \<open>Messages of pydantic-ai\<close>

datatype model_part =
    ToolReturn string string
  | NativeToolReturn string string
  | RetryPrompt "string option" string
  | UserPrompt
  | OtherPart

datatype model_message = ModelRequest "model_part list" | ModelResponse "model_part list"

primrec parts :: "model_message \<Rightarrow> model_part list" where
  "parts (ModelRequest ps) = ps"
| "parts (ModelResponse ps) = ps"

section \<open>The stamp\<close>

definition outcome_field :: string where
  "outcome_field = ''outcome''"

definition with_outcome_key :: "dict option \<Rightarrow> json \<Rightarrow> dict" where
  "with_outcome_key metadata outcome =
     fmupd outcome_field outcome (case metadata of None \<Rightarrow> fmempty | Some d \<Rightarrow> d)"

definition stamp_result :: "tool_result \<Rightarrow> json \<Rightarrow> tool_result" where
  "stamp_result e outcome =
     e\<lparr>res_metadata := Some (with_outcome_key (res_metadata e) outcome),
       res_extra := fmupd outcome_field outcome (res_extra e)\<rparr>"

definition stamp_message :: "message \<Rightarrow> json \<Rightarrow> message" where
  "stamp_message m outcome =
     m\<lparr>msg_metadata := Some (with_outcome_key (msg_metadata m) outcome),
       msg_extra := fmupd outcome_field outcome (msg_extra m)\<rparr>"

lemma stamp_message_sel [simp]:
  "msg_id (stamp_message m v) = msg_id m" "payload (stamp_message m v) = payload m"
  by (simp_all add: stamp_message_def)

lemma stamp_result_sel [simp]:
  "res_message_id (stamp_result e v) = res_message_id e"
  "res_call_id (stamp_result e v) = res_call_id e"
  "res_content (stamp_result e v) = res_content e"
  by (simp_all add: stamp_result_def)

lemma with_outcome_key_lookup:
  "fmlookup (with_outcome_key d v) k =
     (if k = outcome_field then Some v else Option.bind d (\<lambda>m. fmlookup m k))"
  by (auto simp: with_outcome_key_def split: option.split)

lemma stamp_twice: "stamp_message (stamp_message m v) w = stamp_message m w"
  by (cases m) (auto simp: stamp_message_def with_outcome_key_def intro!: fmap_ext split: option.split)

section \<open>Which outcomes are forwarded\<close>

fun forwardable_outcome :: "model_part \<Rightarrow> string option" where
  "forwardable_outcome (RetryPrompt _ _) = None"
| "forwardable_outcome (ToolReturn _ outcome) =
     (if outcome = ''retried'' then None
      else if outcome = ''success'' then None
      else Some outcome)"
| "forwardable_outcome (NativeToolReturn _ outcome) =
     (if outcome = ''retried'' then None
      else if outcome = ''success'' then None
      else Some outcome)"
| "forwardable_outcome _ = None"

definition json_outcome :: "string \<Rightarrow> json" where
  "json_outcome o' = JStr (ustr o')"

section \<open>The live stream\<close>

fun with_outcome_step :: "string option \<Rightarrow> event \<Rightarrow> event" where
  "with_outcome_step (Some oc) (ToolCallResult e) =
     ToolCallResult (stamp_result e (json_outcome oc))"
| "with_outcome_step _ e = e"

definition with_outcome :: "event list \<Rightarrow> string option \<Rightarrow> event list" where
  "with_outcome events outcome = map (with_outcome_step outcome) events"

text \<open>
  The three handlers of \<open>_OutcomeEventStream\<close> differ only in the base handler they
  delegate to, which is the parameter \<open>base\<close>.
\<close>

definition handle_tool_result :: "(model_part \<Rightarrow> event list) \<Rightarrow> model_part \<Rightarrow> event list" where
  "handle_tool_result base part = with_outcome (base part) (forwardable_outcome part)"

section \<open>The stored copy\<close>

fun record_outcome :: "model_part \<Rightarrow> (string \<rightharpoonup> string) \<Rightarrow> (string \<rightharpoonup> string)" where
  "record_outcome (ToolReturn c oc) d =
     (case forwardable_outcome (ToolReturn c oc) of None \<Rightarrow> d | Some v \<Rightarrow> d(c \<mapsto> v))"
| "record_outcome _ d = d"

definition outcomes_by_call :: "model_message list \<Rightarrow> (string \<rightharpoonup> string)" where
  "outcomes_by_call ms = fold (\<lambda>m. fold record_outcome (parts m)) ms Map.empty"

definition with_stored_outcome :: "message \<Rightarrow> (string \<rightharpoonup> string) \<Rightarrow> message" where
  "with_stored_outcome m outcomes =
     (case payload m of
        ToolMsg _ call \<Rightarrow>
          (case outcomes call of None \<Rightarrow> m | Some oc \<Rightarrow> stamp_message m (json_outcome oc))
      | _ \<Rightarrow> m)"

definition dump_messages ::
    "(model_message list \<Rightarrow> message list) \<Rightarrow> model_message list \<Rightarrow> message list" where
  "dump_messages upstream ms =
     map (\<lambda>m. with_stored_outcome m (outcomes_by_call ms)) (upstream ms)"

section \<open>What the stored copy says\<close>

text \<open>The outcomes recorded for one call, in the order of the run.\<close>

fun call_outcome :: "string \<Rightarrow> model_part \<Rightarrow> string option" where
  "call_outcome c (ToolReturn d oc) =
     (if d = c then forwardable_outcome (ToolReturn d oc) else None)"
| "call_outcome c _ = None"

definition forwardable_outcomes :: "string \<Rightarrow> model_message list \<Rightarrow> string list" where
  "forwardable_outcomes c ms = List.map_filter (call_outcome c) (concat (map parts ms))"

lemma record_outcome_apply:
  "record_outcome p d c = (case call_outcome c p of None \<Rightarrow> d c | Some v \<Rightarrow> Some v)"
  by (cases p) auto

lemma fold_record_outcome:
  "fold record_outcome ps d c =
     (case List.map_filter (call_outcome c) ps of [] \<Rightarrow> d c | v # vs \<Rightarrow> Some (last (v # vs)))"
proof (induction ps arbitrary: d)
  case (Cons p ps)
  have "fold record_outcome (p # ps) d c = fold record_outcome ps (record_outcome p d) c"
    by simp
  also have "\<dots> = (case List.map_filter (call_outcome c) ps of
      [] \<Rightarrow> record_outcome p d c | v # vs \<Rightarrow> Some (last (v # vs)))"
    by (rule Cons.IH)
  finally show ?case
    by (auto simp: record_outcome_apply [of p d c] map_filter_simps split: option.splits list.splits)
qed (simp add: map_filter_simps)

lemma fold_parts:
  "fold (\<lambda>m. fold record_outcome (parts m)) ms d =
     fold record_outcome (concat (map parts ms)) d"
  by (induction ms arbitrary: d) simp_all

lemma outcomes_by_call_last:
  "outcomes_by_call ms c =
     (case forwardable_outcomes c ms of [] \<Rightarrow> None | v # vs \<Rightarrow> Some (last (v # vs)))"
  by (simp add: outcomes_by_call_def fold_parts fold_record_outcome forwardable_outcomes_def
      split: list.split)

lemma forwardable_not_settled:
  "forwardable_outcome p = Some v \<Longrightarrow> v \<noteq> ''success'' \<and> v \<noteq> ''retried''"
  by (cases p) (auto split: if_splits)

lemma call_outcome_not_settled:
  "call_outcome c p = Some v \<Longrightarrow> v \<noteq> ''success'' \<and> v \<noteq> ''retried''"
  by (cases p) (auto split: if_splits)

lemma forwardable_outcomes_not_settled:
  "v \<in> set (forwardable_outcomes c ms) \<Longrightarrow> v \<noteq> ''success'' \<and> v \<noteq> ''retried''"
  by (auto simp: forwardable_outcomes_def List.map_filter_def dest: call_outcome_not_settled)

text \<open>
  C7. The stored thread says what the stream said: dumping a run keeps upstream's messages in
  their order, and the only change is that the result of a call whose last recorded outcome is
  worth forwarding is stamped with that outcome, which is never a success nor a retry.
\<close>

theorem dump_messages_stamps_last_outcome:
  "dump_messages upstream ms =
     map (\<lambda>m. case payload m of
            ToolMsg _ c \<Rightarrow>
              (if forwardable_outcomes c ms = [] then m
               else stamp_message m (json_outcome (last (forwardable_outcomes c ms))))
          | _ \<Rightarrow> m)
       (upstream ms)
   \<and> {''success'', ''retried''} \<inter> set (forwardable_outcomes call ms) = {}"
proof
  show "dump_messages upstream ms =
     map (\<lambda>m. case payload m of
            ToolMsg _ c \<Rightarrow>
              (if forwardable_outcomes c ms = [] then m
               else stamp_message m (json_outcome (last (forwardable_outcomes c ms))))
          | _ \<Rightarrow> m)
       (upstream ms)"
    unfolding dump_messages_def with_stored_outcome_def
    by (rule map_cong) (auto simp: outcomes_by_call_last split: payload.split list.split)
  show "{''success'', ''retried''} \<inter> set (forwardable_outcomes call ms) = {}"
    by (auto dest: forwardable_outcomes_not_settled)
qed

text \<open>
  On the live stream exactly the tool results of a call with a forwardable outcome are
  stamped: the event list keeps its length and order, every other event and the result's own
  ids and content are untouched, and the keys a tool's author put in the metadata survive.
\<close>

theorem live_stamp_touches_results_only:
  "map event_type (handle_tool_result base part) = map event_type (base part)
   \<and> filter (\<lambda>e. event_type e \<noteq> ''TOOL_CALL_RESULT'') (handle_tool_result base part)
       = filter (\<lambda>e. event_type e \<noteq> ''TOOL_CALL_RESULT'') (base part)
   \<and> res_message_id (stamp_result e v) = res_message_id e
   \<and> res_call_id (stamp_result e v) = res_call_id e
   \<and> res_content (stamp_result e v) = res_content e
   \<and> fmdrop outcome_field (res_extra (stamp_result e v)) = fmdrop outcome_field (res_extra e)
   \<and> map_option (fmdrop outcome_field) (res_metadata (stamp_result e v))
       = Some (fmdrop outcome_field (case res_metadata e of None \<Rightarrow> fmempty | Some d \<Rightarrow> d))"
proof -
  have type: "event_type (with_outcome_step oc e) = event_type e" for oc e
    by (cases "(oc, e)" rule: with_outcome_step.cases) simp_all
  have other: "event_type e \<noteq> ''TOOL_CALL_RESULT'' \<Longrightarrow> with_outcome_step oc e = e" for oc e
    by (cases "(oc, e)" rule: with_outcome_step.cases) simp_all
  have "filter (\<lambda>e. event_type e \<noteq> ''TOOL_CALL_RESULT'') (map (with_outcome_step oc) es)
      = filter (\<lambda>e. event_type e \<noteq> ''TOOL_CALL_RESULT'') es" for oc es
    by (induction es) (simp_all add: type other)
  then show ?thesis
    by (simp add: handle_tool_result_def with_outcome_def type comp_def stamp_result_def
        with_outcome_key_def)
qed

end
