(* ===== verification/Transcript.thy ===== *)
theory Transcript
  imports Outcome "HOL-Library.Multiset"
begin

text \<open>
  Rebuilding a run's messages from its event stream: the state, \<open>add\<close>, \<open>observe\<close> and
  \<open>messages\<close> of \<open>RunTranscript\<close> in \<open>agent/run_transcript.py\<close>. Lending the streamed ids to
  a dump is in the theory \<open>StreamedIds\<close>.

  The dictionaries whose order the code relies on (reasoning and activities, in the order
  announced) are association lists; the pending calls are only looked up and are a map. The
  items are one list of drafts and results; the lemmas show that its drafts are themselves an
  ordered dictionary keyed by message id.
\<close>

section \<open>State\<close>

record draft =
  draft_id :: string
  draft_text :: "ustr list"
  draft_calls :: "tool_call list"

record pending_call =
  pend_name :: string
  pend_parent :: "string option"
  pend_args :: "ustr list"

record activity =
  act_type :: string
  act_content :: "dict option"

datatype item = DraftItem draft | ResultItem message

record transcript =
  items :: "item list"
  pending_calls :: "string \<rightharpoonup> pending_call"
  call_parents :: "(string \<times> string option) list"
  reasoning :: "(string \<times> ustr list) list"
  activities :: "(string \<times> activity) list"

definition new_transcript :: transcript where
  "new_transcript =
     \<lparr>items = [], pending_calls = Map.empty, call_parents = [], reasoning = [], activities = []\<rparr>"

definition new_draft :: "string \<Rightarrow> draft" where
  "new_draft i = \<lparr>draft_id = i, draft_text = [], draft_calls = []\<rparr>"

section \<open>Operations\<close>

text \<open>
  \<open>_draft_for\<close> hands out the draft object itself and its callers change it in place; here the
  change is the argument. The search runs from the end of the items.
\<close>

fun update_from_end :: "string \<Rightarrow> (draft \<Rightarrow> draft) \<Rightarrow> item list \<Rightarrow> item list option" where
  "update_from_end i f [] = None"
| "update_from_end i f (DraftItem d # rest) =
     (if draft_id d = i then Some (DraftItem (f d) # rest)
      else map_option ((#) (DraftItem d)) (update_from_end i f rest))"
| "update_from_end i f (ResultItem m # rest) =
     map_option ((#) (ResultItem m)) (update_from_end i f rest)"

definition draft_for :: "string \<Rightarrow> (draft \<Rightarrow> draft) \<Rightarrow> item list \<Rightarrow> item list" where
  "draft_for i f its =
     (case update_from_end i f (rev its) of
        Some found \<Rightarrow> rev found
      | None \<Rightarrow> its @ [DraftItem (f (new_draft i))])"

definition add_text :: "ustr \<Rightarrow> draft \<Rightarrow> draft" where
  "add_text delta d = d\<lparr>draft_text := draft_text d @ [delta]\<rparr>"

definition add_call :: "tool_call \<Rightarrow> draft \<Rightarrow> draft" where
  "add_call c d = d\<lparr>draft_calls := draft_calls d @ [c]\<rparr>"

definition tool_message :: "tool_result \<Rightarrow> message" where
  "tool_message e =
     (let m = plain_message (res_message_id e) (ToolMsg (res_content e) (res_call_id e)) in
      case fmlookup (case res_metadata e of None \<Rightarrow> fmempty | Some d \<Rightarrow> d) outcome_field of
        None \<Rightarrow> m
      | Some JNull \<Rightarrow> m
      | Some outcome \<Rightarrow> stamp_message m outcome)"

text \<open>\<open>pending.parent_message_id or event.tool_call_id\<close>: an empty parent counts as none.\<close>

definition draft_key :: "string option \<Rightarrow> string \<Rightarrow> string" where
  "draft_key parent call = (case parent of Some (ch # cs) \<Rightarrow> ch # cs | _ \<Rightarrow> call)"

definition snapshot ::
    "string \<Rightarrow> string \<Rightarrow> dict \<Rightarrow> bool option \<Rightarrow> (string \<times> activity) list \<Rightarrow> (string \<times> activity) list"
where
  "snapshot i ty content replace acts =
     (case map_of acts i of
        None \<Rightarrow> AList.update i \<lparr>act_type = ty, act_content = Some content\<rparr> acts
      | Some known \<Rightarrow>
          if replace \<noteq> Some False
          then AList.update i (known\<lparr>act_content := Some content\<rparr>) acts
          else acts)"

text \<open>
  \<open>add\<close>: an event for a call that is not open raises \<open>KeyError\<close>, whose key is on the left.
\<close>

fun add_event :: "transcript \<Rightarrow> event \<Rightarrow> string + transcript" where
  "add_event t (TextMessageStart i) = Inr (t\<lparr>items := draft_for i (\<lambda>d. d) (items t)\<rparr>)"
| "add_event t (TextMessageContent i delta) =
     Inr (t\<lparr>items := draft_for i (add_text delta) (items t)\<rparr>)"
| "add_event t (ToolCallStart c name parent) =
     Inr (t\<lparr>pending_calls := (pending_calls t)(c \<mapsto>
               \<lparr>pend_name = name, pend_parent = parent, pend_args = []\<rparr>),
            call_parents := call_parents t @ [(c, parent)]\<rparr>)"
| "add_event t (ToolCallArgs c delta) =
     (case pending_calls t c of
        None \<Rightarrow> Inl c
      | Some p \<Rightarrow> Inr (t\<lparr>pending_calls :=
          (pending_calls t)(c \<mapsto> p\<lparr>pend_args := pend_args p @ [delta]\<rparr>)\<rparr>))"
| "add_event t (ToolCallEnd c) =
     (case pending_calls t c of
        None \<Rightarrow> Inl c
      | Some p \<Rightarrow>
          Inr (t\<lparr>pending_calls := (pending_calls t)(c := None),
                 items := draft_for (draft_key (pend_parent p) c)
                   (add_call \<lparr>call_id = c, call_name = pend_name p,
                              call_arguments = concat (pend_args p)\<rparr>) (items t)\<rparr>))"
| "add_event t (ToolCallResult e) = Inr (t\<lparr>items := items t @ [ResultItem (tool_message e)]\<rparr>)"
| "add_event t (ReasoningStart i) = Inr (t\<lparr>reasoning := setdefault i [] (reasoning t)\<rparr>)"
| "add_event t (ReasoningMessageContent i delta) =
     Inr (t\<lparr>reasoning := dict_append i delta (reasoning t)\<rparr>)"
| "add_event t (ActivitySnapshot i ty content replace) =
     Inr (t\<lparr>activities := snapshot i ty content replace (activities t)\<rparr>)"
| "add_event t (ActivityDelta i ty _) =
     Inr (t\<lparr>activities := AList.update i
            (case map_of (activities t) i of
               None \<Rightarrow> \<lparr>act_type = ty, act_content = None\<rparr>
             | Some a \<Rightarrow> a\<lparr>act_content := None\<rparr>) (activities t)\<rparr>)"
| "add_event t _ = Inr t"

fun record_events :: "transcript \<Rightarrow> event list \<Rightarrow> string + transcript" where
  "record_events t [] = Inr t"
| "record_events t (e # es) = bind_result (add_event t e) (\<lambda>t'. record_events t' es)"

text \<open>
  \<open>observe\<close> as the events it yields and how it ends: each event is recorded before it is
  passed on, so the event that raises is not.
\<close>

fun observe :: "transcript \<Rightarrow> event list \<Rightarrow> event list \<times> (string + transcript)" where
  "observe t [] = ([], Inr t)"
| "observe t (e # es) =
     (case add_event t e of
        Inl key \<Rightarrow> ([], Inl key)
      | Inr t' \<Rightarrow> (case observe t' es of (out, r) \<Rightarrow> (e # out, r)))"

fun item_message :: "item \<Rightarrow> message option" where
  "item_message (ResultItem m) = Some m"
| "item_message (DraftItem d) =
     (let content = (if concat (draft_text d) = [] then None else Some (concat (draft_text d)));
          calls = (if draft_calls d = [] then None else Some (draft_calls d))
      in if content = None \<and> calls = None then None
         else Some (plain_message (draft_id d) (AssistantMsg content calls)))"

definition messages :: "transcript \<Rightarrow> message list" where
  "messages t = List.map_filter item_message (items t)"

section \<open>The drafts are an ordered dictionary\<close>

fun drafts :: "item list \<Rightarrow> (string \<times> draft) list" where
  "drafts [] = []"
| "drafts (DraftItem d # rest) = (draft_id d, d) # drafts rest"
| "drafts (ResultItem m # rest) = drafts rest"

fun results :: "item list \<Rightarrow> message list" where
  "results [] = []"
| "results (DraftItem d # rest) = results rest"
| "results (ResultItem m # rest) = m # results rest"

lemma drafts_append [simp]: "drafts (xs @ ys) = drafts xs @ drafts ys"
  by (induction xs rule: drafts.induct) simp_all

lemma results_append [simp]: "results (xs @ ys) = results xs @ results ys"
  by (induction xs rule: results.induct) simp_all

lemma drafts_rev [simp]: "drafts (rev xs) = rev (drafts xs)"
  by (induction xs rule: drafts.induct) simp_all

lemma drafts_key: "(i, d) \<in> set (drafts xs) \<Longrightarrow> draft_id d = i"
  by (induction xs rule: drafts.induct) auto

lemma update_from_end_None:
  "update_from_end i f xs = None \<longleftrightarrow> i \<notin> fst ` set (drafts xs)"
  by (induction i f xs rule: update_from_end.induct) auto

lemma update_from_end_SomeD:
  "update_from_end i f xs = Some ys \<Longrightarrow>
     \<exists>us d vs. xs = us @ DraftItem d # vs \<and> draft_id d = i \<and> ys = us @ DraftItem (f d) # vs"
proof (induction i f xs arbitrary: ys rule: update_from_end.induct)
  case (2 i f d rest)
  show ?case
  proof (cases "draft_id d = i")
    case True
    with 2 show ?thesis by (intro exI [of _ "[]"]) auto
  next
    case False
    with 2 obtain zs where "update_from_end i f rest = Some zs" "ys = DraftItem d # zs" by auto
    with 2(1) [OF False this(1)] show ?thesis by (metis append_Cons)
  qed
next
  case (3 i f m rest)
  then obtain zs where "update_from_end i f rest = Some zs" "ys = ResultItem m # zs" by auto
  with 3(1) [OF this(1)] show ?case by (metis append_Cons)
qed simp

lemma draft_for_cases:
  obtains (new) "i \<notin> fst ` set (drafts its)"
      "draft_for i f its = its @ [DraftItem (f (new_draft i))]"
    | (known) us d vs where "its = us @ DraftItem d # vs" "draft_id d = i"
      "draft_for i f its = us @ DraftItem (f d) # vs"
proof (cases "update_from_end i f (rev its)")
  case None
  then have "i \<notin> fst ` set (drafts its)" using update_from_end_None [of i f "rev its"] by simp
  with None show thesis by (intro new) (simp_all add: draft_for_def)
next
  case (Some ys)
  from update_from_end_SomeD [OF Some] obtain us d vs
    where "rev its = us @ DraftItem d # vs" "draft_id d = i" "ys = us @ DraftItem (f d) # vs"
    by blast
  moreover from this have "its = rev vs @ DraftItem d # rev us"
    by (metis append.assoc append_Cons append_Nil rev.simps(2) rev_append rev_rev_ident)
  ultimately show thesis using Some by (intro known [of "rev vs" d "rev us"]) (simp_all add: draft_for_def)
qed

lemma results_draft_for [simp]: "results (draft_for i f its) = results its"
  by (cases rule: draft_for_cases [of i its f]) simp_all

text \<open>
  The refinement: on items whose draft ids are distinct, \<open>_draft_for\<close> is a lookup with a
  default in a dictionary that keeps its order.
\<close>

lemma drafts_draft_for:
  assumes "distinct (map fst (drafts its))" and "\<And>d. draft_id (f d) = draft_id d"
  shows "drafts (draft_for i f its) =
     AList.update i
       (f (case map_of (drafts its) i of None \<Rightarrow> new_draft i | Some d \<Rightarrow> d)) (drafts its)"
proof (cases rule: draft_for_cases [of i its f])
  case new
  then have "map_of (drafts its) i = None" by (simp add: map_of_eq_None_iff)
  with new assms(2) show ?thesis by (simp add: new_draft_def update_new)
next
  case (known us d vs)
  with assms(1) have fresh: "i \<notin> fst ` set (drafts us)" by auto
  then have "map_of (drafts us) i = None" by (simp add: map_of_eq_None_iff)
  with known have "map_of (drafts its) i = Some d" by (simp add: map_add_def)
  note fresh this
  with known assms(2) show ?thesis by (simp add: update_middle)
qed

lemma draft_ids_draft_for:
  assumes "distinct (map fst (drafts its))" and "\<And>d. draft_id (f d) = draft_id d"
  shows "distinct (map fst (drafts (draft_for i f its)))"
  unfolding drafts_draft_for [OF assms] using assms(1) by (rule distinct_update)

lemma keep_draft_id [simp]:
  "draft_id (add_text x d) = draft_id d" "draft_id (add_call c d) = draft_id d"
  by (simp_all add: add_text_def add_call_def)

section \<open>Invariant\<close>

definition transcript_ok :: "transcript \<Rightarrow> bool" where
  "transcript_ok t \<longleftrightarrow>
     distinct (map fst (drafts (items t))) \<and> distinct (map fst (reasoning t)) \<and>
     distinct (map fst (activities t)) \<and> list_all is_tool_message (results (items t))"

lemma new_transcript_ok [simp]: "transcript_ok new_transcript"
  by (simp add: transcript_ok_def new_transcript_def)

lemma tool_message_sel [simp]:
  "msg_id (tool_message e) = res_message_id e"
  "payload (tool_message e) = ToolMsg (res_content e) (res_call_id e)"
  by (auto simp: tool_message_def Let_def split: option.split json.split)

lemma distinct_snapshot:
  "distinct (map fst acts) \<Longrightarrow> distinct (map fst (snapshot i ty c r acts))"
  by (auto simp: snapshot_def distinct_update split: option.split)

lemma add_event_ok:
  assumes "add_event t e = Inr t'" and "transcript_ok t"
  shows "transcript_ok t'"
  using assms
  by (cases e)
     (auto simp: transcript_ok_def draft_ids_draft_for distinct_setdefault distinct_dict_append
        distinct_snapshot distinct_update split: option.splits)

lemma record_events_ok:
  "record_events t es = Inr t' \<Longrightarrow> transcript_ok t \<Longrightarrow> transcript_ok t'"
  by (induction t es rule: record_events.induct) (auto dest!: bind_result_InrD dest: add_event_ok)

lemma record_events_append:
  "record_events t (xs @ ys) = bind_result (record_events t xs) (\<lambda>t'. record_events t' ys)"
proof (induction xs arbitrary: t)
  case (Cons x xs)
  then show ?case by (cases "add_event t x") simp_all
qed simp

section \<open>What was streamed, read off the events\<close>

fun text_delta :: "string \<Rightarrow> event \<Rightarrow> ustr" where
  "text_delta i (TextMessageContent j delta) = (if j = i then delta else [])"
| "text_delta i _ = []"

definition text_streamed :: "string \<Rightarrow> event list \<Rightarrow> ustr" where
  "text_streamed i es = concat (map (text_delta i) es)"

fun result_of :: "event \<Rightarrow> tool_result option" where
  "result_of (ToolCallResult r) = Some r"
| "result_of _ = None"

definition draft_of :: "item list \<Rightarrow> string \<Rightarrow> draft" where
  "draft_of its i = (case map_of (drafts its) i of None \<Rightarrow> new_draft i | Some d \<Rightarrow> d)"

lemma draft_of_draft_for:
  assumes "distinct (map fst (drafts its))" and "\<And>d. draft_id (f d) = draft_id d"
  shows "draft_of (draft_for i f its) j = (if j = i then f (draft_of its i) else draft_of its j)"
  using drafts_draft_for [OF assms] by (simp add: draft_of_def update_conv')

lemma draft_of_result [simp]: "draft_of (its @ [ResultItem m]) j = draft_of its j"
  by (simp add: draft_of_def)

lemma add_text_sel [simp]:
  "draft_text (add_text x d) = draft_text d @ [x]" "draft_calls (add_text x d) = draft_calls d"
  "draft_text (add_call c d) = draft_text d" "draft_calls (add_call c d) = draft_calls d @ [c]"
  by (simp_all add: add_text_def add_call_def)

lemma add_event_text:
  assumes "add_event t e = Inr t'" and "transcript_ok t"
  shows "concat (draft_text (draft_of (items t') i)) = concat (draft_text (draft_of (items t) i)) @ text_delta i e"
  using assms
  by (cases e) (auto simp: transcript_ok_def draft_of_draft_for split: option.splits)

lemma record_events_text:
  "record_events t es = Inr t' \<Longrightarrow> transcript_ok t \<Longrightarrow>
     concat (draft_text (draft_of (items t') i)) = concat (draft_text (draft_of (items t) i)) @ text_streamed i es"
proof (induction t es arbitrary: rule: record_events.induct)
  case (2 t e es)
  then obtain u where "add_event t e = Inr u" "record_events u es = Inr t'"
    by (auto dest: bind_result_InrD)
  with 2 add_event_ok [of t e u] add_event_text [of t e u i] show ?case
    by (simp add: text_streamed_def)
qed (simp add: text_streamed_def)

lemma add_event_results:
  "add_event t e = Inr t' \<Longrightarrow>
     results (items t') = results (items t) @ (case result_of e of None \<Rightarrow> [] | Some r \<Rightarrow> [tool_message r])"
  by (cases e) (auto split: option.splits)

lemma record_events_results:
  "record_events t es = Inr t' \<Longrightarrow>
     results (items t') = results (items t) @ map tool_message (List.map_filter result_of es)"
proof (induction t es rule: record_events.induct)
  case (2 t e es)
  then obtain u where "add_event t e = Inr u" "record_events u es = Inr t'"
    by (auto dest: bind_result_InrD)
  with 2 add_event_results [of t e u] show ?case
    by (simp add: map_filter_simps split: option.split)
qed (simp add: map_filter_simps)

section \<open>What the rebuilt messages say\<close>

definition message_text :: "string \<Rightarrow> message \<Rightarrow> ustr" where
  "message_text i m =
     (case payload m of AssistantMsg (Some c) _ \<Rightarrow> if msg_id m = i then c else [] | _ \<Rightarrow> [])"

definition message_calls :: "string \<Rightarrow> message \<Rightarrow> tool_call list" where
  "message_calls i m =
     (case payload m of AssistantMsg _ cs \<Rightarrow> if msg_id m = i then calls_of cs else [] | _ \<Rightarrow> [])"

definition assistant_text :: "string \<Rightarrow> message list \<Rightarrow> ustr" where
  "assistant_text i ms = concat (map (message_text i) ms)"

definition assistant_calls :: "string \<Rightarrow> message list \<Rightarrow> tool_call list" where
  "assistant_calls i ms = concat (map (message_calls i) ms)"

lemma concat_keyed:
  "distinct (map fst ds) \<Longrightarrow>
     concat (map (\<lambda>(k, d). if k = i then g d else []) ds) =
       (case map_of ds i of None \<Rightarrow> [] | Some d \<Rightarrow> g d)"
proof (induction ds)
  case (Cons kd ds)
  show ?case
  proof (cases "fst kd = i")
    case True
    with Cons.prems have "map_of ds i = None" by (auto simp: map_of_eq_None_iff)
    with Cons True show ?thesis by (auto split: prod.splits)
  qed (use Cons in \<open>auto split: prod.splits\<close>)
qed simp

lemma items_text:
  "list_all is_tool_message (results its) \<Longrightarrow>
     assistant_text i (List.map_filter item_message its) =
       concat (map (\<lambda>(k, d). if k = i then concat (draft_text d) else []) (drafts its))"
  by (induction its rule: drafts.induct)
     (auto simp: assistant_text_def message_text_def map_filter_simps Let_def split: payload.splits)

lemma items_calls:
  "list_all is_tool_message (results its) \<Longrightarrow>
     assistant_calls i (List.map_filter item_message its) =
       concat (map (\<lambda>(k, d). if k = i then draft_calls d else []) (drafts its))"
  by (induction its rule: drafts.induct)
     (auto simp: assistant_calls_def message_calls_def map_filter_simps Let_def split: payload.splits)

lemma messages_text:
  "transcript_ok t \<Longrightarrow> assistant_text i (messages t) = concat (draft_text (draft_of (items t) i))"
  by (simp add: transcript_ok_def messages_def items_text concat_keyed draft_of_def new_draft_def
      split: option.split)

lemma messages_calls:
  "transcript_ok t \<Longrightarrow> assistant_calls i (messages t) = draft_calls (draft_of (items t) i)"
  by (simp add: transcript_ok_def messages_def items_calls concat_keyed draft_of_def new_draft_def
      split: option.split)

lemma item_tool_messages:
  "list_all is_tool_message (results its) \<Longrightarrow>
     filter is_tool_message (List.map_filter item_message its) = results its"
  by (induction its rule: drafts.induct) (auto simp: map_filter_simps Let_def)

lemma item_assistant_ids:
  "list_all is_tool_message (results its) \<Longrightarrow>
     subseq (map msg_id (filter (\<lambda>m. \<not> is_tool_message m) (List.map_filter item_message its)))
       (map fst (drafts its))"
  by (induction its rule: drafts.induct) (auto simp: map_filter_simps Let_def)

lemma messages_tools:
  "transcript_ok t \<Longrightarrow> filter is_tool_message (messages t) = results (items t)"
  by (simp add: transcript_ok_def messages_def item_tool_messages)

lemma messages_assistant_ids:
  "transcript_ok t \<Longrightarrow> distinct (map msg_id (filter (\<lambda>m. \<not> is_tool_message m) (messages t)))"
  unfolding transcript_ok_def messages_def
  using item_assistant_ids distinct_subseq by blast

text \<open>
  C4. The messages a cancelled or failed run stores are what was streamed: whatever the
  interleaving of the events, the assistant message under an id holds exactly the text deltas
  of that id in order, no two assistant messages share an id, and the tool messages are the
  tool results in the order they streamed.
\<close>

theorem messages_are_what_streamed:
  assumes "record_events new_transcript es = Inr t"
  shows "assistant_text i (messages t) = text_streamed i es
    \<and> distinct (map msg_id (filter (\<lambda>m. \<not> is_tool_message m) (messages t)))
    \<and> filter is_tool_message (messages t) = map tool_message (List.map_filter result_of es)"
proof (intro conjI)
  have ok: "transcript_ok t" using assms record_events_ok new_transcript_ok by blast
  show "assistant_text i (messages t) = text_streamed i es"
    using record_events_text [OF assms, of i] messages_text [OF ok]
    by (simp add: draft_of_def new_draft_def new_transcript_def transcript_ok_def)
  show "distinct (map msg_id (filter (\<lambda>m. \<not> is_tool_message m) (messages t)))"
    by (rule messages_assistant_ids [OF ok])
  show "filter is_tool_message (messages t) = map tool_message (List.map_filter result_of es)"
    using record_events_results [OF assms] messages_tools [OF ok] by (simp add: new_transcript_def)
qed

text \<open>The theorem applies to two messages and a tool call whose events are interleaved.\<close>

definition interleaved :: "event list" where
  "interleaved =
     [TextMessageStart ''m1'', TextMessageContent ''m1'' (ustr ''he''),
      ToolCallStart ''c1'' ''search'' (Some ''m1''), ToolCallStart ''c2'' ''fetch'' None,
      ToolCallArgs ''c1'' (ustr ''{a''), ToolCallArgs ''c2'' (ustr ''{}''),
      TextMessageContent ''m1'' (ustr ''llo''), ToolCallArgs ''c1'' (ustr '':1}''),
      ToolCallEnd ''c2'', ToolCallEnd ''c1'',
      ToolCallResult \<lparr>res_message_id = ''r1'', res_call_id = ''c1'', res_content = ustr ''ok'',
        res_metadata = None, res_extra = fmempty\<rparr>]"

lemma interleaved_recorded: "\<exists>t. record_events new_transcript interleaved = Inr t"
  by (simp add: interleaved_def new_transcript_def)

lemma messages_are_what_streamed_witness:
  "\<exists>t. record_events new_transcript interleaved = Inr t
     \<and> assistant_text ''m1'' (messages t) = ustr ''hello''
     \<and> length (filter is_tool_message (messages t)) = 1"
proof -
  obtain t where t: "record_events new_transcript interleaved = Inr t"
    using interleaved_recorded by blast
  have "text_streamed ''m1'' interleaved = ustr ''hello''"
    by (simp add: interleaved_def text_streamed_def ustr_def)
  moreover have "length (List.map_filter result_of interleaved) = 1"
    by (simp add: interleaved_def map_filter_simps)
  ultimately show ?thesis
    using t messages_are_what_streamed [OF t, of "''m1''"] by (intro exI [of _ t]) simp
qed

section \<open>Tool calls\<close>

fun opens_or_closes :: "string \<Rightarrow> event \<Rightarrow> bool" where
  "opens_or_closes c (ToolCallStart d _ _) = (d = c)"
| "opens_or_closes c (ToolCallEnd d) = (d = c)"
| "opens_or_closes c _ = False"

fun args_delta :: "string \<Rightarrow> event \<Rightarrow> ustr option" where
  "args_delta c (ToolCallArgs d delta) = (if d = c then Some delta else None)"
| "args_delta c _ = None"

definition args_streamed :: "string \<Rightarrow> event list \<Rightarrow> ustr" where
  "args_streamed c es = concat (List.map_filter (args_delta c) es)"

lemma add_event_pending:
  assumes "add_event t e = Inr t'" and "pending_calls t c = Some p" and "\<not> opens_or_closes c e"
  shows "pending_calls t' c =
     Some (p\<lparr>pend_args := pend_args p @ (case args_delta c e of None \<Rightarrow> [] | Some d \<Rightarrow> [d])\<rparr>)"
  using assms by (cases e) (auto split: option.splits if_splits)

lemma record_events_pending:
  "record_events t es = Inr t' \<Longrightarrow> pending_calls t c = Some p \<Longrightarrow>
     list_all (\<lambda>e. \<not> opens_or_closes c e) es \<Longrightarrow>
     pending_calls t' c = Some (p\<lparr>pend_args := pend_args p @ List.map_filter (args_delta c) es\<rparr>)"
proof (induction t es arbitrary: p rule: record_events.induct)
  case (2 t e es)
  then obtain u where u: "add_event t e = Inr u" "record_events u es = Inr t'"
    by (auto dest: bind_result_InrD)
  with 2 add_event_pending [of t e u c p] show ?case
    by (simp add: map_filter_simps split: option.splits)
qed (simp add: map_filter_simps)

lemma add_event_calls:
  assumes "add_event t e = Inr t'" and "transcript_ok t"
  shows "prefix (draft_calls (draft_of (items t) i)) (draft_calls (draft_of (items t') i))"
  using assms by (cases e) (auto simp: transcript_ok_def draft_of_draft_for split: option.splits)

lemma record_events_calls:
  "record_events t es = Inr t' \<Longrightarrow> transcript_ok t \<Longrightarrow>
     prefix (draft_calls (draft_of (items t) i)) (draft_calls (draft_of (items t') i))"
proof (induction t es rule: record_events.induct)
  case (2 t e es)
  then obtain u where "add_event t e = Inr u" "record_events u es = Inr t'"
    by (auto dest: bind_result_InrD)
  with 2 add_event_ok [of t e u] add_event_calls [of t e u i] show ?case
    by (auto intro: prefix_order.trans)
qed simp

definition all_calls :: "item list \<Rightarrow> tool_call list" where
  "all_calls its = concat (map (draft_calls \<circ> snd) (drafts its))"

lemma all_calls_append [simp]: "all_calls (xs @ ys) = all_calls xs @ all_calls ys"
  by (simp add: all_calls_def)

lemma all_calls_Cons [simp]:
  "all_calls (DraftItem d # its) = draft_calls d @ all_calls its"
  "all_calls (ResultItem m # its) = all_calls its" "all_calls [] = []"
  by (simp_all add: all_calls_def)

lemma all_calls_draft_for:
  assumes "\<And>d. draft_calls (f d) = draft_calls d @ cs"
  shows "mset (all_calls (draft_for i f its)) = mset (all_calls its) + mset cs"
  by (cases rule: draft_for_cases [of i its f]) (simp_all add: assms new_draft_def)

fun ended_call :: "event \<Rightarrow> string option" where
  "ended_call (ToolCallEnd c) = Some c"
| "ended_call _ = None"

lemma add_event_all_calls:
  assumes "add_event t e = Inr t'"
  shows "image_mset call_id (mset (all_calls (items t'))) =
     image_mset call_id (mset (all_calls (items t)))
       + mset (case ended_call e of None \<Rightarrow> [] | Some c \<Rightarrow> [c])"
proof -
  have same: "mset (all_calls (draft_for i f its)) = mset (all_calls its)"
    if "\<And>d. draft_calls (f d) = draft_calls d" for i f its
    using all_calls_draft_for [of f "[]" i its] that by simp
  have more: "mset (all_calls (draft_for i (add_call c) its)) = mset (all_calls its) + {#c#}"
    for i c its using all_calls_draft_for [of "add_call c" "[c]" i its] by simp
  show ?thesis
    using assms by (cases e) (auto simp: same more split: option.splits)
qed

lemma record_events_all_calls:
  "record_events t es = Inr t' \<Longrightarrow>
     image_mset call_id (mset (all_calls (items t'))) =
       image_mset call_id (mset (all_calls (items t))) + mset (List.map_filter ended_call es)"
proof (induction t es rule: record_events.induct)
  case (2 t e es)
  then obtain u where "add_event t e = Inr u" "record_events u es = Inr t'"
    by (auto dest: bind_result_InrD)
  with 2 add_event_all_calls [of t e u] show ?case
    by (simp add: map_filter_simps split: option.splits)
qed (simp add: map_filter_simps)

definition calls_in :: "message list \<Rightarrow> tool_call list" where
  "calls_in ms =
     concat (map (\<lambda>m. case payload m of AssistantMsg _ cs \<Rightarrow> calls_of cs | _ \<Rightarrow> []) ms)"

lemma calls_in_messages:
  assumes "transcript_ok t"
  shows "calls_in (messages t) = all_calls (items t)"
proof -
  have "calls_in (List.map_filter item_message its) = all_calls its"
    if "list_all is_tool_message (results its)" for its
    using that
    by (induction its rule: drafts.induct)
       (auto simp: calls_in_def map_filter_simps Let_def split: payload.splits)
  with assms show ?thesis by (simp add: transcript_ok_def messages_def)
qed

lemma call_lands:
  assumes "record_events t (ToolCallStart c name parent # during @ ToolCallEnd c # after) = Inr t'"
    and "transcript_ok t" and "list_all (\<lambda>e. \<not> opens_or_closes c e) during"
  shows "\<exists>u. record_events t (ToolCallStart c name parent # during) = Inr u \<and>
     prefix (draft_calls (draft_of (items u) (draft_key parent c)) @
               [\<lparr>call_id = c, call_name = name, call_arguments = args_streamed c during\<rparr>])
            (draft_calls (draft_of (items t') (draft_key parent c)))"
proof -
  let ?start = "ToolCallStart c name parent"
  have "record_events t ((?start # during) @ ToolCallEnd c # after) = Inr t'"
    using assms(1) by simp
  then obtain u where u: "record_events t (?start # during) = Inr u"
      "record_events u (ToolCallEnd c # after) = Inr t'"
    unfolding record_events_append by (auto dest: bind_result_InrD)
  from u(2) obtain v where v: "add_event u (ToolCallEnd c) = Inr v" "record_events v after = Inr t'"
    by (auto simp del: add_event.simps dest!: bind_result_InrD)
  have ok: "transcript_ok u" by (rule record_events_ok [OF u(1) assms(2)])
  from u(1) obtain s where s: "add_event t ?start = Inr s" "record_events s during = Inr u"
    by (auto simp del: add_event.simps dest!: bind_result_InrD)
  from s(1) have "pending_calls s c = Some \<lparr>pend_name = name, pend_parent = parent, pend_args = []\<rparr>"
    by auto
  from record_events_pending [OF s(2) this assms(3)]
  have pend: "pending_calls u c = Some \<lparr>pend_name = name, pend_parent = parent,
      pend_args = List.map_filter (args_delta c) during\<rparr>" by simp
  have "draft_calls (draft_of (items v) (draft_key parent c)) =
      draft_calls (draft_of (items u) (draft_key parent c)) @
        [\<lparr>call_id = c, call_name = name, call_arguments = args_streamed c during\<rparr>]"
    using v(1) pend ok by (auto simp: transcript_ok_def draft_of_draft_for args_streamed_def)
  moreover have "prefix (draft_calls (draft_of (items v) (draft_key parent c)))
      (draft_calls (draft_of (items t') (draft_key parent c)))"
    by (rule record_events_calls [OF v(2) add_event_ok [OF v(1) ok]])
  ultimately show ?thesis using u(1) by auto
qed

text \<open>
  C5. A tool call is stored whole or not at all: when a call started, took its argument deltas
  and ended, with any other events between, the message it names as its parent (or one under
  its own id) holds it with its name and the concatenation of its own deltas; and the calls
  stored are exactly the calls that ended, so a half-streamed call is dropped.
\<close>

theorem ended_calls_are_stored_whole:
  assumes "record_events new_transcript
             (before @ ToolCallStart c name parent # during @ ToolCallEnd c # after) = Inr t"
    and "list_all (\<lambda>e. \<not> opens_or_closes c e) during"
  shows "\<lparr>call_id = c, call_name = name, call_arguments = args_streamed c during\<rparr>
           \<in> set (assistant_calls (draft_key parent c) (messages t))
    \<and> image_mset call_id (mset (calls_in (messages t)))
         = mset (List.map_filter ended_call
             (before @ ToolCallStart c name parent # during @ ToolCallEnd c # after))"
proof
  from assms(1) obtain s where s: "record_events new_transcript before = Inr s"
      "record_events s (ToolCallStart c name parent # during @ ToolCallEnd c # after) = Inr t"
    unfolding record_events_append by (auto dest: bind_result_InrD)
  have "transcript_ok s" using s(1) record_events_ok new_transcript_ok by blast
  from call_lands [OF s(2) this assms(2)]
  have "\<lparr>call_id = c, call_name = name, call_arguments = args_streamed c during\<rparr>
      \<in> set (draft_calls (draft_of (items t) (draft_key parent c)))"
    by (auto dest!: set_mono_prefix)
  moreover have ok: "transcript_ok t" using assms(1) record_events_ok new_transcript_ok by blast
  ultimately show "\<lparr>call_id = c, call_name = name, call_arguments = args_streamed c during\<rparr>
      \<in> set (assistant_calls (draft_key parent c) (messages t))"
    by (simp add: messages_calls)
  show "image_mset call_id (mset (calls_in (messages t)))
         = mset (List.map_filter ended_call
             (before @ ToolCallStart c name parent # during @ ToolCallEnd c # after))"
    using record_events_all_calls [OF assms(1)] calls_in_messages [OF ok]
    by (simp add: new_transcript_def)
qed

lemma ended_calls_are_stored_whole_witness:
  "\<exists>t. record_events new_transcript interleaved = Inr t
     \<and> \<lparr>call_id = ''c1'', call_name = ''search'', call_arguments = ustr ''{a:1}''\<rparr>
          \<in> set (assistant_calls ''m1'' (messages t))"
proof -
  obtain t where t: "record_events new_transcript interleaved = Inr t"
    using interleaved_recorded by blast
  have split: "interleaved =
     [TextMessageStart ''m1'', TextMessageContent ''m1'' (ustr ''he'')] @
      ToolCallStart ''c1'' ''search'' (Some ''m1'') #
      [ToolCallStart ''c2'' ''fetch'' None,
       ToolCallArgs ''c1'' (ustr ''{a''), ToolCallArgs ''c2'' (ustr ''{}''),
       TextMessageContent ''m1'' (ustr ''llo''), ToolCallArgs ''c1'' (ustr '':1}''),
       ToolCallEnd ''c2''] @
      ToolCallEnd ''c1'' #
      [ToolCallResult \<lparr>res_message_id = ''r1'', res_call_id = ''c1'', res_content = ustr ''ok'',
        res_metadata = None, res_extra = fmempty\<rparr>]"
    by (simp add: interleaved_def)
  from ended_calls_are_stored_whole [OF t [unfolded split]] t show ?thesis
    by (simp add: args_streamed_def draft_key_def ustr_def map_filter_simps)
qed

section \<open>Streams the observer refuses\<close>

text \<open>Whether the arguments and ends of call \<open>c\<close> come while it is open.\<close>

fun bracketed :: "string \<Rightarrow> bool \<Rightarrow> event list \<Rightarrow> bool" where
  "bracketed c opened [] = True"
| "bracketed c opened (ToolCallStart d _ _ # es) = bracketed c (opened \<or> d = c) es"
| "bracketed c opened (ToolCallArgs d _ # es) = ((d = c \<longrightarrow> opened) \<and> bracketed c opened es)"
| "bracketed c opened (ToolCallEnd d # es) =
     (if d = c then opened \<and> bracketed c False es else bracketed c opened es)"
| "bracketed c opened (e # es) = bracketed c opened es"

lemma add_event_bracketed:
  "(\<forall>c. bracketed c (pending_calls t c \<noteq> None) (e # es)) \<longleftrightarrow>
     (\<exists>u. add_event t e = Inr u \<and> (\<forall>c. bracketed c (pending_calls u c \<noteq> None) es))"
proof (cases e)
  case (ToolCallStart d n p)
  have "(pending_calls t c \<noteq> None \<or> d = c) =
      (((pending_calls t)(d \<mapsto> \<lparr>pend_name = n, pend_parent = p, pend_args = []\<rparr>)) c \<noteq> None)" for c
    by auto
  then show ?thesis using ToolCallStart by simp
next
  case (ToolCallArgs d x)
  have "(((pending_calls t)(d \<mapsto> p)) c \<noteq> None) = (pending_calls t c \<noteq> None)"
    if "pending_calls t d = Some q" for p q c using that by auto
  then show ?thesis using ToolCallArgs by (cases "pending_calls t d") auto
next
  case (ToolCallEnd d)
  have "(if d = c then bracketed c False es else bracketed c (pending_calls t c \<noteq> None) es)
      = bracketed c (((pending_calls t)(d := None)) c \<noteq> None) es" for c by auto
  then show ?thesis using ToolCallEnd
    by (cases "pending_calls t d") (auto split: if_splits)
qed simp_all

lemma record_events_bracketed:
  "(\<exists>t'. record_events t es = Inr t') \<longleftrightarrow> (\<forall>c. bracketed c (pending_calls t c \<noteq> None) es)"
proof (induction es arbitrary: t)
  case (Cons e es)
  show ?case
    unfolding add_event_bracketed using Cons
    by (cases "add_event t e") simp_all
qed simp

lemma observe_state: "snd (observe t es) = record_events t es"
  by (induction t es rule: observe.induct) (auto split: sum.split prod.split)

lemma observe_prefix: "prefix (fst (observe t es)) es"
  by (induction t es rule: observe.induct) (auto split: sum.split prod.split)

lemma observe_all: "fst (observe t es) = es \<longleftrightarrow> (\<exists>t'. record_events t es = Inr t')"
proof (induction t es rule: observe.induct)
  case (2 t e es)
  then show ?case by (cases "add_event t e") (auto split: prod.split)
qed simp

text \<open>
  C6. Observing a stream passes it through unchanged: the events yielded are always a prefix of
  the events read, each yielded after it was recorded, and all of them are yielded exactly when
  every call's argument and end events come between its start and its end; otherwise the
  stream ends with the \<open>KeyError\<close> recording raises.
\<close>

theorem observe_passes_bracketed_streams:
  "snd (observe new_transcript es) = record_events new_transcript es
   \<and> prefix (fst (observe new_transcript es)) es
   \<and> (fst (observe new_transcript es) = es \<longleftrightarrow> (\<forall>c. bracketed c False es))
   \<and> ((\<exists>t. record_events new_transcript es = Inr t) \<longleftrightarrow> (\<forall>c. bracketed c False es))"
  using observe_state observe_prefix observe_all record_events_bracketed [of new_transcript es]
  by (simp add: new_transcript_def)



end
