(* ===== verification/Lending.thy ===== *)
theory Lending
  imports Wire
begin

text \<open>
  The loop \<open>RunTranscript.with_streamed_ids\<close> and \<open>lend_stored_ids\<close> share: walk a dump, ask
  for an id for each message, and copy the message under that id unless the id was already
  given out or is blocked. What the loop guarantees is proved once, in the locale
  \<open>id_lender\<close>, whose laws say what an offered id stands for.
\<close>

fun lend_ids ::
    "('s \<Rightarrow> message \<Rightarrow> string option \<times> 's) \<Rightarrow> string set \<Rightarrow> string set \<Rightarrow> 's \<Rightarrow> message list \<Rightarrow>
     message list"
where
  "lend_ids offer blocked taken s [] = []"
| "lend_ids offer blocked taken s (m # ms) =
     (case offer s m of
        (None, s') \<Rightarrow> m # lend_ids offer blocked taken s' ms
      | (Some i, s') \<Rightarrow>
          if i \<in> taken \<or> i \<in> blocked
          then m # lend_ids offer blocked taken s' ms
          else m\<lparr>msg_id := i\<rparr> # lend_ids offer blocked (insert i taken) s' ms)"

text \<open>The ids that differ between two lists of the same messages: the ids lent.\<close>

definition changed_ids :: "message list \<Rightarrow> message list \<Rightarrow> string list" where
  "changed_ids ms out =
     map (msg_id \<circ> snd) (filter (\<lambda>(m, n). msg_id m \<noteq> msg_id n) (zip ms out))"

lemma changed_ids_simps [simp]:
  "changed_ids [] out = []" "changed_ids (m # ms) (m # out) = changed_ids ms out"
  "changed_ids (m # ms) (n # out) =
     (if msg_id m = msg_id n then changed_ids ms out else msg_id n # changed_ids ms out)"
  by (simp_all add: changed_ids_def)

lemma lend_ids_bodies: "map body (lend_ids offer blocked taken s ms) = map body ms"
  by (induction offer blocked taken s ms rule: lend_ids.induct) (auto split: prod.split option.split)

lemma length_lend_ids [simp]: "length (lend_ids offer blocked taken s ms) = length ms"
  by (metis lend_ids_bodies length_map)

lemma lend_ids_changed:
  "distinct (changed_ids ms (lend_ids offer blocked taken s ms))
   \<and> set (changed_ids ms (lend_ids offer blocked taken s ms)) \<inter> (taken \<union> blocked) = {}"
proof (induction offer blocked taken s ms rule: lend_ids.induct)
  case (2 offer blocked taken s m ms)
  show ?case
  proof (cases "offer s m")
    case (Pair x s')
    then show ?thesis using 2 by (cases x) auto
  qed
qed simp

locale id_lender =
  fixes offer :: "'s \<Rightarrow> message \<Rightarrow> string option \<times> 's"
    and agrees :: "'s \<Rightarrow> message list \<Rightarrow> bool"
    and fits :: "message \<Rightarrow> string \<Rightarrow> bool"
  assumes offered: "agrees s (m # ms) \<Longrightarrow> offer s m = (Some i, s') \<Longrightarrow> fits m i"
    and onward: "agrees s (m # ms) \<Longrightarrow> offer s m = (x, s') \<Longrightarrow> agrees s' ms"
begin

lemma lent_ids_fit:
  "agrees s ms \<Longrightarrow>
     list_all2 (\<lambda>m n. n = m \<or> (\<exists>i. n = m\<lparr>msg_id := i\<rparr> \<and> fits m i \<and> i \<notin> taken \<union> blocked))
       ms (lend_ids offer blocked taken s ms)"
proof (induction ms arbitrary: s taken)
  case (Cons m ms)
  obtain x s' where o: "offer s m = (x, s')" by fastforce
  have next_ok: "agrees s' ms" by (rule onward [OF Cons.prems o])
  show ?case
  proof (cases "\<exists>i. x = Some i \<and> i \<notin> taken \<and> i \<notin> blocked")
    case True
    then obtain i where i: "x = Some i" "i \<notin> taken" "i \<notin> blocked" by blast
    then have "fits m i" using offered [OF Cons.prems] o by blast
    moreover have "list_all2
        (\<lambda>m n. n = m \<or> (\<exists>j. n = m\<lparr>msg_id := j\<rparr> \<and> fits m j \<and> j \<notin> taken \<union> blocked))
        ms (lend_ids offer blocked (insert i taken) s' ms)"
      by (rule list_all2_mono [OF Cons.IH [OF next_ok]]) auto
    ultimately show ?thesis using i o by auto
  next
    case False
    then show ?thesis using o Cons.IH [OF next_ok] by (cases x) auto
  qed
qed simp

lemma distinct_ids:
  assumes "agrees s ms" and "distinct (map msg_id ms)"
    and "\<And>m i. m \<in> set ms \<Longrightarrow> fits m i \<Longrightarrow> i \<in> msg_id ` set ms \<Longrightarrow> i \<in> taken \<union> blocked"
  shows "distinct (map msg_id (lend_ids offer blocked taken s ms))"
proof -
  define own where "own = msg_id ` set ms"
  have "distinct (map msg_id (lend_ids offer blocked T s ms))
      \<and> msg_id ` set (lend_ids offer blocked T s ms) \<subseteq> msg_id ` set ms \<union> (- own - (T \<union> blocked))"
    if "agrees s ms" "distinct (map msg_id ms)" "msg_id ` set ms \<subseteq> own" "taken \<subseteq> T"
      "\<And>m i. m \<in> set ms \<Longrightarrow> fits m i \<Longrightarrow> i \<in> own \<Longrightarrow> i \<in> taken \<union> blocked" for s ms T
    using that
  proof (induction ms arbitrary: s T)
    case (Cons m ms)
    obtain x s' where o: "offer s m = (x, s')" by fastforce
    have next_ok: "agrees s' ms" by (rule onward [OF Cons.prems(1) o])
    have own_m: "msg_id m \<in> own" "msg_id m \<notin> msg_id ` set ms" using Cons.prems by auto
    note IH = Cons.IH [OF next_ok]
    show ?case
    proof (cases "\<exists>i. x = Some i \<and> i \<notin> T \<and> i \<notin> blocked")
      case True
      then obtain i where i: "x = Some i" "i \<notin> T" "i \<notin> blocked" by blast
      then have "fits m i" using offered [OF Cons.prems(1)] o by blast
      with i Cons.prems(4,5) have "i \<notin> own" by auto
      moreover have "distinct (map msg_id (lend_ids offer blocked (insert i T) s' ms))
          \<and> msg_id ` set (lend_ids offer blocked (insert i T) s' ms)
             \<subseteq> msg_id ` set ms \<union> (- own - (insert i T \<union> blocked))"
        using Cons.prems by (intro IH) auto
      ultimately show ?thesis using i o Cons.prems(3) by auto
    next
      case False
      moreover have "distinct (map msg_id (lend_ids offer blocked T s' ms))
          \<and> msg_id ` set (lend_ids offer blocked T s' ms)
             \<subseteq> msg_id ` set ms \<union> (- own - (T \<union> blocked))"
        using Cons.prems by (intro IH) auto
      ultimately show ?thesis using o own_m by (cases x) auto
    qed
  qed simp
  from this [OF assms(1,2)] assms(3) show ?thesis by (auto simp: own_def)
qed

end

end
