(* ===== verification/StreamedIds.thy ===== *)
theory StreamedIds
  imports Transcript Lending
begin

text \<open>
  \<open>RunTranscript.with_streamed_ids\<close> of \<open>agent/run_transcript.py\<close>: a completed run is stored
  from pydantic-ai's dump, and each dumped message is given the id the stream announced for
  it. The iterators and queues the code pops are the fields of \<open>streamed_ids\<close>.
\<close>

record streamed_ids =
  by_result :: "string \<rightharpoonup> string list"
  by_parent :: "string \<rightharpoonup> string option list"
  text_ids :: "string list"
  reasoning_ids :: "string list"
  activity_ids :: "string \<rightharpoonup> string list"

section \<open>Comparing a streamed message with a dumped one\<close>

definition same_text :: "ustr \<Rightarrow> ustr option \<Rightarrow> bool" where
  "same_text streamed dumped \<longleftrightarrow>
     without_newlines streamed = without_newlines (case dumped of None \<Rightarrow> [] | Some d \<Rightarrow> d)"

definition same_content :: "dict option \<Rightarrow> dict \<Rightarrow> bool" where
  "same_content streamed dumped \<longleftrightarrow>
     (case streamed of None \<Rightarrow> False | Some d \<Rightarrow> dict_eq d (fmdrop ''canonical_system'' dumped))"

definition by_position ::
    "(string \<times> 's) list \<Rightarrow> 'd list \<Rightarrow> ('s \<Rightarrow> 'd \<Rightarrow> bool) \<Rightarrow> string list" where
  "by_position streamed dumped same =
     (if length streamed \<noteq> length dumped then []
      else if \<not> list_all (\<lambda>((_, content), d). same content d) (zip streamed dumped) then []
      else map fst streamed)"

section \<open>Queues of calls and results\<close>

definition take_queued :: "('k \<rightharpoonup> 'v list) \<Rightarrow> 'k \<Rightarrow> 'v option \<times> ('k \<rightharpoonup> 'v list)" where
  "take_queued queues key =
     (case queues key of
        Some (v # vs) \<Rightarrow> (Some v, queues(key \<mapsto> vs))
      | _ \<Rightarrow> (None, queues))"

text \<open>A queue that is empty and a call that named no parent both give \<open>None\<close>.\<close>

fun take_parents ::
    "(string \<rightharpoonup> string option list) \<Rightarrow> tool_call list \<Rightarrow>
     string option list \<times> (string \<rightharpoonup> string option list)" where
  "take_parents queues [] = ([], queues)"
| "take_parents queues (c # cs) =
     (case take_queued queues (call_id c) of
        (found, queues') \<Rightarrow>
          (case take_parents queues' cs of (rest, queues'') \<Rightarrow> (Option.bind found id # rest, queues'')))"

definition shared_parent ::
    "(string \<rightharpoonup> string option list) \<Rightarrow> tool_call list \<Rightarrow>
     string option \<times> (string \<rightharpoonup> string option list)" where
  "shared_parent parents calls =
     (case take_parents parents calls of
        (found, parents') \<Rightarrow> (case remdups found of [p] \<Rightarrow> (p, parents') | _ \<Rightarrow> (None, parents')))"

definition parent_holding ::
    "(string \<rightharpoonup> string option list) \<Rightarrow> tool_call list \<Rightarrow> (string \<rightharpoonup> ustr) \<Rightarrow> ustr option \<Rightarrow>
     string option \<times> (string \<rightharpoonup> string option list)" where
  "parent_holding parents calls texts content =
     (case shared_parent parents calls of
        (None, parents') \<Rightarrow> (None, parents')
      | (Some p, parents') \<Rightarrow>
          if \<not> same_text (case texts p of None \<Rightarrow> [] | Some t \<Rightarrow> t) content
          then (None, parents') else (Some p, parents'))"

section \<open>What the stream announced\<close>

definition draft_texts :: "transcript \<Rightarrow> (string \<rightharpoonup> ustr)" where
  "draft_texts t = map_of (rev (map (\<lambda>(i, d). (i, concat (draft_text d))) (drafts (items t))))"

definition text_drafts :: "transcript \<Rightarrow> (string \<times> ustr) list" where
  "text_drafts t =
     map (\<lambda>(i, d). (i, concat (draft_text d)))
       (filter (\<lambda>(i, d). draft_calls d = []) (drafts (items t)))"

definition text_answer :: "message \<Rightarrow> ustr option option" where
  "text_answer m =
     (case payload m of
        AssistantMsg content calls \<Rightarrow> if calls_of calls = [] then Some content else None
      | _ \<Rightarrow> None)"

definition reasoning_text :: "message \<Rightarrow> ustr option" where
  "reasoning_text m = (case payload m of ReasoningMsg t \<Rightarrow> Some t | _ \<Rightarrow> None)"

definition activity_of_type :: "string \<Rightarrow> message \<Rightarrow> dict option" where
  "activity_of_type ty m =
     (case payload m of ActivityMsg a c \<Rightarrow> if a = ty then Some c else None | _ \<Rightarrow> None)"

definition group_activity ::
    "message \<Rightarrow> (string \<times> dict list) list \<Rightarrow> (string \<times> dict list) list" where
  "group_activity m dumped =
     (case payload m of ActivityMsg ty content \<Rightarrow> dict_append ty content dumped | _ \<Rightarrow> dumped)"

definition streamed_of_type :: "transcript \<Rightarrow> string \<Rightarrow> (string \<times> dict option) list" where
  "streamed_of_type t ty =
     map (\<lambda>(i, a). (i, act_content a)) (filter (\<lambda>(i, a). act_type a = ty) (activities t))"

definition activities_by_type :: "transcript \<Rightarrow> message list \<Rightarrow> (string \<rightharpoonup> string list)" where
  "activities_by_type t ms =
     map_of (map (\<lambda>(ty, contents). (ty, by_position (streamed_of_type t ty) contents same_content))
       (fold group_activity ms []))"

definition result_key :: "message \<Rightarrow> (string \<times> string) option" where
  "result_key m = (case payload m of ToolMsg _ c \<Rightarrow> Some (c, msg_id m) | _ \<Rightarrow> None)"

lemma text_answer_payload [simp]:
  "payload m = AssistantMsg c cs \<Longrightarrow> text_answer m = (if calls_of cs = [] then Some c else None)"
  "payload m = ToolMsg x y \<Longrightarrow> text_answer m = None" "payload m = UserMsg u \<Longrightarrow> text_answer m = None"
  "payload m = SystemMsg x \<Longrightarrow> text_answer m = None"
  "payload m = ReasoningMsg x \<Longrightarrow> text_answer m = None"
  "payload m = ActivityMsg z d \<Longrightarrow> text_answer m = None"
  by (simp_all add: text_answer_def)

lemma reasoning_text_payload [simp]:
  "payload m = AssistantMsg c cs \<Longrightarrow> reasoning_text m = None"
  "payload m = ToolMsg x y \<Longrightarrow> reasoning_text m = None"
  "payload m = UserMsg u \<Longrightarrow> reasoning_text m = None"
  "payload m = SystemMsg x \<Longrightarrow> reasoning_text m = None"
  "payload m = ReasoningMsg x \<Longrightarrow> reasoning_text m = Some x"
  "payload m = ActivityMsg z d \<Longrightarrow> reasoning_text m = None"
  by (simp_all add: reasoning_text_def)

lemma activity_of_type_payload [simp]:
  "payload m = AssistantMsg c cs \<Longrightarrow> activity_of_type ty m = None"
  "payload m = ToolMsg x y \<Longrightarrow> activity_of_type ty m = None"
  "payload m = UserMsg u \<Longrightarrow> activity_of_type ty m = None"
  "payload m = SystemMsg x \<Longrightarrow> activity_of_type ty m = None"
  "payload m = ReasoningMsg x \<Longrightarrow> activity_of_type ty m = None"
  "payload m = ActivityMsg z d \<Longrightarrow> activity_of_type ty m = (if z = ty then Some d else None)"
  by (simp_all add: activity_of_type_def)

lemma group_activity_payload [simp]:
  "payload m = AssistantMsg c cs \<Longrightarrow> group_activity m g = g"
  "payload m = ToolMsg x y \<Longrightarrow> group_activity m g = g"
  "payload m = UserMsg u \<Longrightarrow> group_activity m g = g"
  "payload m = SystemMsg x \<Longrightarrow> group_activity m g = g"
  "payload m = ReasoningMsg x \<Longrightarrow> group_activity m g = g"
  "payload m = ActivityMsg z d \<Longrightarrow> group_activity m g = dict_append z d g"
  by (simp_all add: group_activity_def)

definition announced :: "transcript \<Rightarrow> message list \<Rightarrow> streamed_ids" where
  "announced t ms =
     \<lparr>by_result = fold (\<lambda>(c, i). enqueue c i) (List.map_filter result_key (results (items t))) Map.empty,
      by_parent = fold (\<lambda>(c, p). enqueue c p) (call_parents t) Map.empty,
      text_ids = by_position (text_drafts t) (List.map_filter text_answer ms) same_text,
      reasoning_ids = by_position (map (\<lambda>(i, ds). (i, concat ds)) (reasoning t))
        (List.map_filter reasoning_text ms) (\<lambda>s d. same_text s (Some d)),
      activity_ids = activities_by_type t ms\<rparr>"

section \<open>The id of one message\<close>

definition next_id :: "'v list \<Rightarrow> 'v option \<times> 'v list" where
  "next_id ids = (case ids of [] \<Rightarrow> (None, []) | i # rest \<Rightarrow> (Some i, rest))"

fun streamed_id :: "transcript \<Rightarrow> streamed_ids \<Rightarrow> message \<Rightarrow> string option \<times> streamed_ids" where
  "streamed_id t s m =
     (case payload m of
        ToolMsg _ call \<Rightarrow>
          (case take_queued (by_result s) call of (i, q) \<Rightarrow> (i, s\<lparr>by_result := q\<rparr>))
      | AssistantMsg content calls \<Rightarrow>
          if calls_of calls \<noteq> []
          then (case parent_holding (by_parent s) (calls_of calls) (draft_texts t) content of
                  (i, q) \<Rightarrow> (i, s\<lparr>by_parent := q\<rparr>))
          else (case next_id (text_ids s) of (i, ids) \<Rightarrow> (i, s\<lparr>text_ids := ids\<rparr>))
      | ReasoningMsg _ \<Rightarrow>
          (case next_id (reasoning_ids s) of (i, ids) \<Rightarrow> (i, s\<lparr>reasoning_ids := ids\<rparr>))
      | ActivityMsg ty _ \<Rightarrow>
          (case take_queued (activity_ids s) ty of (i, q) \<Rightarrow> (i, s\<lparr>activity_ids := q\<rparr>))
      | _ \<Rightarrow> (None, s))"

definition with_streamed_ids :: "transcript \<Rightarrow> message list \<Rightarrow> message list" where
  "with_streamed_ids t ms = lend_ids (streamed_id t) {} {} (announced t ms) ms"

section \<open>What an announced id stands for\<close>

fun announced_for :: "transcript \<Rightarrow> message \<Rightarrow> string \<Rightarrow> bool" where
  "announced_for t m i =
     (case payload m of
        ToolMsg _ call \<Rightarrow> (\<exists>r \<in> set (results (items t)). result_key r = Some (call, i))
      | AssistantMsg content calls \<Rightarrow>
          if calls_of calls \<noteq> []
          then (\<forall>c \<in> set (calls_of calls). (call_id c, Some i) \<in> set (call_parents t))
            \<and> same_text (case draft_texts t i of None \<Rightarrow> [] | Some x \<Rightarrow> x) content
          else (\<exists>x. (i, x) \<in> set (text_drafts t) \<and> same_text x content)
      | ReasoningMsg content \<Rightarrow>
          (\<exists>ds. (i, ds) \<in> set (reasoning t) \<and> same_text (concat ds) (Some content))
      | ActivityMsg ty content \<Rightarrow>
          (\<exists>c. (i, c) \<in> set (streamed_of_type t ty) \<and> same_content c content)
      | _ \<Rightarrow> False)"

definition pairs_with :: "(string \<Rightarrow> 'd \<Rightarrow> bool) \<Rightarrow> string list \<Rightarrow> 'd list \<Rightarrow> bool" where
  "pairs_with fits ids dumped \<longleftrightarrow> ids = [] \<or> list_all2 fits ids dumped"

definition text_fits :: "transcript \<Rightarrow> string \<Rightarrow> ustr option \<Rightarrow> bool" where
  "text_fits t i content \<longleftrightarrow> (\<exists>x. (i, x) \<in> set (text_drafts t) \<and> same_text x content)"

definition reasoning_fits :: "transcript \<Rightarrow> string \<Rightarrow> ustr \<Rightarrow> bool" where
  "reasoning_fits t i content \<longleftrightarrow>
     (\<exists>ds. (i, ds) \<in> set (reasoning t) \<and> same_text (concat ds) (Some content))"

definition activity_fits :: "transcript \<Rightarrow> string \<Rightarrow> string \<Rightarrow> dict \<Rightarrow> bool" where
  "activity_fits t ty i content \<longleftrightarrow>
     (\<exists>c. (i, c) \<in> set (streamed_of_type t ty) \<and> same_content c content)"

definition agrees :: "transcript \<Rightarrow> streamed_ids \<Rightarrow> message list \<Rightarrow> bool" where
  "agrees t s ms \<longleftrightarrow>
     (\<forall>c. \<forall>i \<in> set (queued (by_result s) c). \<exists>r \<in> set (results (items t)). result_key r = Some (c, i))
     \<and> (\<forall>c. \<forall>p \<in> set (queued (by_parent s) c). (c, p) \<in> set (call_parents t))
     \<and> pairs_with (text_fits t) (text_ids s) (List.map_filter text_answer ms)
     \<and> pairs_with (reasoning_fits t) (reasoning_ids s) (List.map_filter reasoning_text ms)
     \<and> (\<forall>ty. pairs_with (activity_fits t ty) (queued (activity_ids s) ty)
               (List.map_filter (activity_of_type ty) ms))"

lemma pairs_with_Nil [simp]: "pairs_with fits [] ds"
  by (simp add: pairs_with_def)

lemma pairs_with_Cons [simp]:
  "pairs_with fits (i # ids) (d # ds) \<longleftrightarrow> fits i d \<and> list_all2 fits ids ds"
  "\<not> pairs_with fits (i # ids) []"
  by (simp_all add: pairs_with_def)

lemma pairs_withI: "list_all2 fits ids ds \<Longrightarrow> pairs_with fits ids ds"
  by (simp add: pairs_with_def)

lemma by_position_pairs:
  assumes "\<And>i x d. (i, x) \<in> set streamed \<Longrightarrow> same x d \<Longrightarrow> fits i d"
  shows "pairs_with fits (by_position streamed dumped same) dumped"
proof (cases "by_position streamed dumped same = []")
  case False
  then have len: "length streamed = length dumped"
    and all: "list_all (\<lambda>((_, content), d). same content d) (zip streamed dumped)"
    and ids: "by_position streamed dumped same = map fst streamed"
    by (auto simp: by_position_def split: if_splits)
  have "list_all2 fits (map fst streamed) dumped"
    unfolding list_all2_conv_all_nth
    using len all assms by (fastforce simp: list_all_length in_set_conv_nth)
  with ids show ?thesis by (simp add: pairs_withI)
qed simp

section \<open>The loop's laws\<close>

lemma take_queued_Some:
  "take_queued q k = (Some v, q') \<Longrightarrow> queued q k = v # queued q' k \<and> (\<forall>j. j \<noteq> k \<longrightarrow> queued q' j = queued q j)"
  by (auto simp: take_queued_def queued_def split: option.splits list.splits)

lemma take_queued_None:
  "take_queued q k = (None, q') \<Longrightarrow> q' = q \<and> queued q k = []"
  by (auto simp: take_queued_def queued_def split: option.splits list.splits)

lemma take_queued_subset:
  "take_queued q k = (x, q') \<Longrightarrow> set (queued q' j) \<subseteq> set (queued q j)"
  by (cases x; cases "j = k") (auto dest: take_queued_Some take_queued_None)

lemma take_parents_subset:
  "take_parents q cs = (found, q') \<Longrightarrow> set (queued q' j) \<subseteq> set (queued q j)"
proof (induction q cs arbitrary: found q' rule: take_parents.induct)
  case (2 q c cs)
  obtain x q1 where x: "take_queued q (call_id c) = (x, q1)" by fastforce
  obtain rest q2 where r: "take_parents q1 cs = (rest, q2)" by fastforce
  from 2 x r have "q' = q2" by simp
  with 2(1) [OF x [symmetric] r] take_queued_subset [OF x, of j] show ?case by simp
qed simp

lemma take_parents_found:
  "take_parents q cs = (found, q') \<Longrightarrow> c \<in> set cs \<Longrightarrow>
     \<exists>p \<in> set found. p = None \<or> p \<in> set (queued q (call_id c))"
proof (induction q cs arbitrary: found q' rule: take_parents.induct)
  case (2 q d cs)
  obtain x q1 where x: "take_queued q (call_id d) = (x, q1)" by fastforce
  obtain rest q2 where r: "take_parents q1 cs = (rest, q2)" by fastforce
  from 2 x r have found: "found = Option.bind x id # rest" by simp
  show ?case
  proof (cases "c = d")
    case True
    show ?thesis
    proof (cases x)
      case (Some p)
      with x have "queued q (call_id d) = p # queued q1 (call_id d)" by (auto dest: take_queued_Some)
      with Some True found show ?thesis by simp
    qed (simp add: found)
  next
    case False
    with 2(1) [OF x [symmetric] r] 2(3) obtain p
      where "p \<in> set rest" "p = None \<or> p \<in> set (queued q1 (call_id c))" by auto
    with take_queued_subset [OF x] found show ?thesis by auto
  qed
qed simp

lemma remdups_single: "remdups xs = [x] \<longleftrightarrow> set xs = {x}"
proof
  assume "set xs = {x}"
  then have "length (remdups xs) = 1" "set (remdups xs) = {x}"
    by (simp_all add: length_remdups_card_conv)
  then show "remdups xs = [x]" by (cases "remdups xs") auto
qed (metis list.set(1) list.simps(15) set_remdups)

lemma shared_parent_all:
  assumes "shared_parent q cs = (Some p, q')" and "c \<in> set cs"
  shows "Some p \<in> set (queued q (call_id c))"
proof -
  obtain found q1 where f: "take_parents q cs = (found, q1)" by fastforce
  with assms(1) have "remdups found = [Some p]"
    by (auto simp: shared_parent_def split: list.splits)
  then have "set found = {Some p}" by (simp add: remdups_single)
  with take_parents_found [OF f assms(2)] show ?thesis by auto
qed

lemma shared_parent_subset:
  "shared_parent q cs = (p, q') \<Longrightarrow> set (queued q' j) \<subseteq> set (queued q j)"
  by (cases "take_parents q cs")
     (auto simp: shared_parent_def dest: take_parents_subset split: list.splits)

lemma parent_holding_subset:
  "parent_holding q cs texts content = (p, q') \<Longrightarrow> set (queued q' j) \<subseteq> set (queued q j)"
  by (cases "shared_parent q cs")
     (auto simp: parent_holding_def dest: shared_parent_subset split: option.splits if_splits)

lemma parent_holding_Some:
  assumes "parent_holding q cs texts content = (Some p, q')"
  shows "(\<forall>c \<in> set cs. Some p \<in> set (queued q (call_id c)))
    \<and> same_text (case texts p of None \<Rightarrow> [] | Some x \<Rightarrow> x) content"
proof -
  obtain x q1 where x: "shared_parent q cs = (x, q1)" by fastforce
  with assms have "x = Some p" "same_text (case texts p of None \<Rightarrow> [] | Some x \<Rightarrow> x) content"
    by (auto simp: parent_holding_def split: option.splits if_splits)
  with x shared_parent_all [of q cs p q1] show ?thesis by blast
qed

lemma agrees_offered:
  assumes "agrees t s (m # ms)" and "streamed_id t s m = (Some i, s')"
  shows "announced_for t m i"
proof (cases "payload m")
  case (ToolMsg c call)
  then obtain q where "take_queued (by_result s) call = (Some i, q)"
    using assms(2) by (auto split: prod.splits)
  then have "i \<in> set (queued (by_result s) call)" by (auto dest: take_queued_Some)
  with assms(1) ToolMsg show ?thesis by (auto simp: agrees_def)
next
  case (AssistantMsg content calls)
  show ?thesis
  proof (cases "calls_of calls = []")
    case True
    then have "text_ids s = i # tl (text_ids s)"
      using assms(2) AssistantMsg by (auto simp: next_id_def split: list.splits)
    then have "pairs_with (text_fits t) (i # tl (text_ids s))
        (content # List.map_filter text_answer ms)"
      using assms(1) AssistantMsg True by (simp add: agrees_def map_filter_simps)
    with AssistantMsg True show ?thesis by (simp add: text_fits_def)
  next
    case False
    then obtain q where "parent_holding (by_parent s) (calls_of calls) (draft_texts t) content = (Some i, q)"
      using assms(2) AssistantMsg by (auto split: prod.splits)
    from parent_holding_Some [OF this] assms(1) AssistantMsg False show ?thesis
      by (auto simp: agrees_def)
  qed
next
  case (ReasoningMsg content)
  then have "reasoning_ids s = i # tl (reasoning_ids s)"
    using assms(2) by (auto simp: next_id_def split: list.splits)
  then have "pairs_with (reasoning_fits t) (i # tl (reasoning_ids s))
      (content # List.map_filter reasoning_text ms)"
    using assms(1) ReasoningMsg by (simp add: agrees_def map_filter_simps)
  with ReasoningMsg show ?thesis by (simp add: reasoning_fits_def)
next
  case (ActivityMsg ty content)
  then obtain q where "take_queued (activity_ids s) ty = (Some i, q)"
    using assms(2) by (auto split: prod.splits)
  then have "queued (activity_ids s) ty = i # queued q ty" by (auto dest: take_queued_Some)
  moreover have "pairs_with (activity_fits t ty) (queued (activity_ids s) ty)
      (List.map_filter (activity_of_type ty) (m # ms))"
    using assms(1) unfolding agrees_def by blast
  ultimately have "activity_fits t ty i content"
    using ActivityMsg by (simp add: map_filter_simps)
  with ActivityMsg show ?thesis by (simp add: activity_fits_def)
qed (use assms in auto)

lemma pairs_with_next:
  "pairs_with fits ids (d # ds) \<Longrightarrow> next_id ids = (x, ids') \<Longrightarrow> pairs_with fits ids' ds"
  by (cases ids) (auto simp: next_id_def intro: pairs_withI)

lemma pairs_with_take:
  assumes "pairs_with fits (queued q k) (d # ds)" and "take_queued q k = (x, q')"
  shows "pairs_with fits (queued q' k) ds"
proof (cases x)
  case None
  with assms(2) show ?thesis by (auto dest: take_queued_None)
next
  case (Some v)
  with assms show ?thesis by (auto dest!: take_queued_Some intro: pairs_withI)
qed

lemma take_queued_other: "take_queued q k = (x, q') \<Longrightarrow> j \<noteq> k \<Longrightarrow> queued q' j = queued q j"
  by (cases x) (auto dest: take_queued_Some take_queued_None)

lemma agrees_activities:
  assumes "agrees t s (m # ms)" and "payload m = ActivityMsg ty content"
    and "take_queued (activity_ids s) ty = (x, q)"
  shows "pairs_with (activity_fits t k) (queued q k) (List.map_filter (activity_of_type k) ms)"
proof -
  have all: "pairs_with (activity_fits t k) (queued (activity_ids s) k)
      (List.map_filter (activity_of_type k) (m # ms))" for k
    using assms(1) unfolding agrees_def by blast
  show ?thesis
  proof (cases "k = ty")
    case True
    with all [of ty] assms(2,3) show ?thesis
      by (auto simp: map_filter_simps intro: pairs_with_take)
  next
    case False
    with all [of k] assms(2) take_queued_other [OF assms(3) False] show ?thesis
      by (simp add: map_filter_simps)
  qed
qed

lemma agrees_answers:
  assumes "agrees t s (m # ms)" and "payload m = AssistantMsg content calls" and "calls_of calls = []"
    and "next_id (text_ids s) = (x, ids)"
  shows "agrees t (s\<lparr>text_ids := ids\<rparr>) ms"
proof -
  have "pairs_with (text_fits t) (text_ids s) (content # List.map_filter text_answer ms)"
    using assms(1-3) by (simp add: agrees_def map_filter_simps)
  from pairs_with_next [OF this assms(4)] assms(1-3) show ?thesis
    by (simp add: agrees_def map_filter_simps)
qed

lemma agrees_onward:
  assumes "agrees t s (m # ms)" and "streamed_id t s m = (x, s')"
  shows "agrees t s' ms"
proof (cases "payload m")
  case (ToolMsg c call)
  then obtain q where q: "take_queued (by_result s) call = (x, q)" "s' = s\<lparr>by_result := q\<rparr>"
    using assms(2) by (auto split: prod.splits)
  have "set (queued q j) \<subseteq> set (queued (by_result s) j)" for j by (rule take_queued_subset [OF q(1)])
  with assms(1) ToolMsg q(2) show ?thesis
    by (simp add: agrees_def map_filter_simps) blast
next
  case (AssistantMsg content calls)
  show ?thesis
  proof (cases "calls_of calls = []")
    case True
    then obtain ids where "next_id (text_ids s) = (x, ids)" "s' = s\<lparr>text_ids := ids\<rparr>"
      using assms(2) AssistantMsg by (auto split: prod.splits)
    with agrees_answers [OF assms(1) AssistantMsg True] show ?thesis by simp
  next
    case False
    then obtain q where
      q: "parent_holding (by_parent s) (calls_of calls) (draft_texts t) content = (x, q)"
        "s' = s\<lparr>by_parent := q\<rparr>"
      using assms(2) AssistantMsg by (auto split: prod.splits)
    have "set (queued q j) \<subseteq> set (queued (by_parent s) j)" for j
      by (rule parent_holding_subset [OF q(1)])
    with assms(1) AssistantMsg False q(2) show ?thesis
      by (simp add: agrees_def map_filter_simps) blast
  qed
next
  case (ReasoningMsg content)
  then obtain ids where n: "next_id (reasoning_ids s) = (x, ids)" "s' = s\<lparr>reasoning_ids := ids\<rparr>"
    using assms(2) by (auto split: prod.splits)
  have "pairs_with (reasoning_fits t) (reasoning_ids s) (content # List.map_filter reasoning_text ms)"
    using assms(1) ReasoningMsg by (simp add: agrees_def map_filter_simps)
  from pairs_with_next [OF this n(1)] assms(1) ReasoningMsg n(2) show ?thesis
    by (simp add: agrees_def map_filter_simps)
next
  case (ActivityMsg ty content)
  then obtain q where q: "take_queued (activity_ids s) ty = (x, q)" "s' = s\<lparr>activity_ids := q\<rparr>"
    using assms(2) by (auto split: prod.splits)
  with agrees_activities [OF assms(1) ActivityMsg q(1)] assms(1) ActivityMsg show ?thesis
    by (simp add: agrees_def map_filter_simps)
qed (use assms in \<open>auto simp: agrees_def map_filter_simps\<close>)

lemma map_of_group_activity:
  "map_of (fold group_activity ms d) ty =
     (case map_of d ty of
        None \<Rightarrow> (if List.map_filter (activity_of_type ty) ms = [] then None
                else Some (List.map_filter (activity_of_type ty) ms))
      | Some cs \<Rightarrow> Some (cs @ List.map_filter (activity_of_type ty) ms))"
proof (induction ms arbitrary: d)
  case (Cons m ms)
  show ?case
    by (cases "payload m")
       (auto simp: Cons map_of_dict_append map_filter_simps split: option.splits)
qed (simp add: map_filter_simps split: option.split)

lemma activities_by_type_queued:
  "queued (activities_by_type t ms) ty =
     (if List.map_filter (activity_of_type ty) ms = [] then []
      else by_position (streamed_of_type t ty) (List.map_filter (activity_of_type ty) ms) same_content)"
proof -
  have "map_of (map (\<lambda>(ty, contents). (ty, f ty contents)) d) ty = map_option (f ty) (map_of d ty)"
    for f :: "string \<Rightarrow> dict list \<Rightarrow> string list" and d
    by (induction d) auto
  then show ?thesis
    by (simp add: activities_by_type_def queued_def map_of_group_activity)
qed

lemma announced_agrees: "agrees t (announced t ms) ms"
  unfolding agrees_def announced_def
proof (simp, intro conjI allI)
  show "\<forall>i \<in> set (queued (fold (\<lambda>(c, i). enqueue c i)
        (List.map_filter result_key (results (items t))) Map.empty) c).
      \<exists>r \<in> set (results (items t)). result_key r = Some (c, i)" for c
    unfolding queued_fold_enqueue by (auto simp: List.map_filter_def)
  show "\<forall>p \<in> set (queued (fold (\<lambda>(c, p). enqueue c p) (call_parents t) Map.empty) c).
      (c, p) \<in> set (call_parents t)" for c
    unfolding queued_fold_enqueue by auto
  show "pairs_with (text_fits t) (by_position (text_drafts t) (List.map_filter text_answer ms) same_text)
      (List.map_filter text_answer ms)"
    by (rule by_position_pairs) (auto simp: text_fits_def)
  show "pairs_with (reasoning_fits t)
      (by_position (map (\<lambda>(i, ds). (i, concat ds)) (reasoning t)) (List.map_filter reasoning_text ms)
        (\<lambda>s d. same_text s (Some d)))
      (List.map_filter reasoning_text ms)"
    by (rule by_position_pairs) (auto simp: reasoning_fits_def)
  show "pairs_with (activity_fits t ty) (queued (activities_by_type t ms) ty)
      (List.map_filter (activity_of_type ty) ms)" for ty
    unfolding activities_by_type_queued
    by (auto intro!: by_position_pairs simp: activity_fits_def)
qed

interpretation streamed: id_lender "streamed_id t" "agrees t" "announced_for t" for t
  by unfold_locales (rule agrees_offered agrees_onward; assumption)+

text \<open>
  C1. Lending the streamed ids to a dump changes ids and nothing else, never lends one id to two
  messages, and lends an id only to the message it was announced for: a tool result by its
  call, an assistant message with calls when every call streamed under that one id and the
  text streamed there is its own, a text answer or reasoning only under an id that streamed
  the same text but for newlines, an activity only under an id of its type that showed the
  same content.
\<close>

theorem streamed_ids_name_their_own_message:
  "map body (with_streamed_ids t ms) = map body ms
   \<and> distinct (changed_ids ms (with_streamed_ids t ms))
   \<and> list_all2 (\<lambda>m n. n = m \<or> (\<exists>i. n = m\<lparr>msg_id := i\<rparr> \<and> announced_for t m i))
       ms (with_streamed_ids t ms)"
proof (intro conjI)
  show "map body (with_streamed_ids t ms) = map body ms"
    unfolding with_streamed_ids_def by (rule lend_ids_bodies)
  show "distinct (changed_ids ms (with_streamed_ids t ms))"
    unfolding with_streamed_ids_def by (rule conjunct1 [OF lend_ids_changed])
  show "list_all2 (\<lambda>m n. n = m \<or> (\<exists>i. n = m\<lparr>msg_id := i\<rparr> \<and> announced_for t m i))
      ms (with_streamed_ids t ms)"
    unfolding with_streamed_ids_def
    by (rule list_all2_mono [OF streamed.lent_ids_fit [OF announced_agrees, where taken = "{}" and blocked = "{}"]])
       blast
qed

section \<open>A dump of the streamed messages gets every id back\<close>

text \<open>
  \<open>restores t s R\<close>: the queues and iterators of \<open>s\<close> hold, for the messages \<open>R\<close> still to
  come, exactly the ids of \<open>R\<close>.
\<close>

definition calls_in_message :: "message \<Rightarrow> tool_call list" where
  "calls_in_message m = (case payload m of AssistantMsg _ cs \<Rightarrow> calls_of cs | _ \<Rightarrow> [])"

definition restorable :: "transcript \<Rightarrow> streamed_ids \<Rightarrow> message \<Rightarrow> bool" where
  "restorable t s m \<longleftrightarrow>
     (case payload m of
        ToolMsg _ _ \<Rightarrow> True
      | AssistantMsg content cs \<Rightarrow>
          (\<forall>c \<in> set (calls_of cs). queued (by_parent s) (call_id c) = [Some (msg_id m)])
          \<and> (calls_of cs \<noteq> [] \<longrightarrow>
               same_text (case draft_texts t (msg_id m) of None \<Rightarrow> [] | Some x \<Rightarrow> x) content)
      | _ \<Rightarrow> False)"

definition restores :: "transcript \<Rightarrow> streamed_ids \<Rightarrow> message list \<Rightarrow> bool" where
  "restores t s R \<longleftrightarrow>
     (\<forall>c. queued (by_result s) c = map snd (filter (\<lambda>kv. fst kv = c) (List.map_filter result_key R)))
     \<and> text_ids s = map msg_id (filter (\<lambda>m. text_answer m \<noteq> None) R)
     \<and> distinct (map call_id (concat (map calls_in_message R)))
     \<and> (\<forall>m \<in> set R. restorable t s m)"

lemma restorable_cong:
  assumes "\<And>c. c \<in> set (calls_in_message m) \<Longrightarrow>
      queued (by_parent s') (call_id c) = queued (by_parent s) (call_id c)"
  shows "restorable t s' m = restorable t s m"
  using assms by (auto simp: restorable_def calls_in_message_def split: payload.split)

lemma restores_results:
  "restores t s R \<Longrightarrow>
     queued (by_result s) c = map snd (filter (\<lambda>kv. fst kv = c) (List.map_filter result_key R))"
  by (simp add: restores_def)

lemma take_parents_all:
  assumes "\<forall>c \<in> set cs. queued q (call_id c) = [Some p]" and "distinct (map call_id cs)"
    and "take_parents q cs = (found, q')"
  shows "found = replicate (length cs) (Some p)
    \<and> (\<forall>j. j \<notin> call_id ` set cs \<longrightarrow> queued q' j = queued q j)"
  using assms
proof (induction q cs arbitrary: found q' rule: take_parents.induct)
  case (2 q c cs)
  obtain x q1 where x: "take_queued q (call_id c) = (x, q1)" by fastforce
  obtain rest q2 where r: "take_parents q1 cs = (rest, q2)" by fastforce
  from 2(2) x have "x = Some (Some p)"
    by (cases x) (auto dest: take_queued_Some take_queued_None)
  moreover have same: "j \<noteq> call_id c \<Longrightarrow> queued q1 j = queued q j" for j
    by (rule take_queued_other [OF x])
  moreover have "rest = replicate (length cs) (Some p)
      \<and> (\<forall>j. j \<notin> call_id ` set cs \<longrightarrow> queued q2 j = queued q1 j)"
  proof (rule 2(1) [OF x [symmetric] _ _ r])
    show "\<forall>c \<in> set cs. queued q1 (call_id c) = [Some p]"
    proof
      fix d assume "d \<in> set cs"
      then have "call_id d \<in> call_id ` set cs" by (rule imageI)
      then have "call_id d \<noteq> call_id c" using 2(3) by (metis distinct.simps(2) list.simps(9) set_map)
      then show "queued q1 (call_id d) = [Some p]" using same 2(2) \<open>d \<in> set cs\<close> by simp
    qed
    show "distinct (map call_id cs)" using 2(3) by simp
  qed
  ultimately show ?case using 2(4) x r by simp
qed simp

lemma parent_holding_all:
  assumes "\<forall>c \<in> set cs. queued q (call_id c) = [Some p]" and "distinct (map call_id cs)" and "cs \<noteq> []"
    and "same_text (case texts p of None \<Rightarrow> [] | Some x \<Rightarrow> x) content"
  shows "\<exists>q'. parent_holding q cs texts content = (Some p, q')
    \<and> (\<forall>j. j \<notin> call_id ` set cs \<longrightarrow> queued q' j = queued q j)"
proof -
  obtain found q' where f: "take_parents q cs = (found, q')" by fastforce
  from take_parents_all [OF assms(1,2) f]
  have found: "found = replicate (length cs) (Some p)"
    and rest: "\<forall>j. j \<notin> call_id ` set cs \<longrightarrow> queued q' j = queued q j" by blast+
  from found assms(3) have "remdups found = [Some p]" by (simp add: remdups_single set_replicate_conv_if)
  with f have "shared_parent q cs = (Some p, q')" by (simp add: shared_parent_def)
  with assms(4) rest show ?thesis by (simp add: parent_holding_def)
qed

lemma result_key_payload:
  "payload m = ToolMsg x c \<Longrightarrow> result_key m = Some (c, msg_id m)"
  "payload m = AssistantMsg content cs \<Longrightarrow> result_key m = None"
  by (simp_all add: result_key_def)

lemma restores_rest:
  assumes "restores t s R'" and "set R \<subseteq> set R'" and "by_parent s' = by_parent s" and "m \<in> set R"
  shows "restorable t s' m"
  using assms restorable_cong [of m s' s t] by (auto simp: restores_def)

lemma restores_result:
  assumes R: "restores t s (m # R)" and tool: "payload m = ToolMsg x c"
  shows "\<exists>q. take_queued (by_result s) c = (Some (msg_id m), q) \<and> restores t (s\<lparr>by_result := q\<rparr>) R"
proof -
  have head: "queued (by_result s) j =
      map snd (filter (\<lambda>kv. fst kv = j) ((c, msg_id m) # List.map_filter result_key R))" for j
    using restores_results [OF R, of j] tool by (simp add: map_filter_simps result_key_payload)
  have "queued (by_result s) c \<noteq> [] \<and> hd (queued (by_result s) c) = msg_id m"
    using head [of c] by simp
  then obtain q where q: "take_queued (by_result s) c = (Some (msg_id m), q)"
    by (fastforce simp: take_queued_def queued_def neq_Nil_conv split: option.splits)
  have "queued q j = map snd (filter (\<lambda>kv. fst kv = j) (List.map_filter result_key R))" for j
    using head [of j] take_queued_Some [OF q] by (cases "j = c") auto
  moreover have "restorable t (s\<lparr>by_result := q\<rparr>) m'" if "m' \<in> set R" for m'
    by (rule restores_rest [OF R _ _ that]) auto
  ultimately have "restores t (s\<lparr>by_result := q\<rparr>) R"
    using R tool by (simp add: restores_def calls_in_message_def)
  with q show ?thesis by blast
qed

lemma restores_answer:
  assumes R: "restores t s (m # R)" and answer: "payload m = AssistantMsg content cs" "calls_of cs = []"
  shows "\<exists>ids. next_id (text_ids s) = (Some (msg_id m), ids) \<and> restores t (s\<lparr>text_ids := ids\<rparr>) R"
proof -
  have "text_ids s = msg_id m # map msg_id (filter (\<lambda>m. text_answer m \<noteq> None) R)"
    using R answer by (simp add: restores_def)
  moreover have "queued (by_result s) j =
      map snd (filter (\<lambda>kv. fst kv = j) (List.map_filter result_key R))" for j
    using restores_results [OF R, of j] answer by (simp add: map_filter_simps result_key_payload)
  moreover have "restorable t (s\<lparr>text_ids := ids\<rparr>) m'" if "m' \<in> set R" for ids m'
    by (rule restores_rest [OF R _ _ that]) auto
  ultimately show ?thesis using R answer by (simp add: restores_def next_id_def calls_in_message_def)
qed

lemma restores_calls:
  assumes R: "restores t s (m # R)" and calls: "payload m = AssistantMsg content cs" "calls_of cs \<noteq> []"
  shows "\<exists>q. parent_holding (by_parent s) (calls_of cs) (draft_texts t) content = (Some (msg_id m), q)
    \<and> restores t (s\<lparr>by_parent := q\<rparr>) R"
proof -
  let ?rest = "concat (map calls_in_message R)"
  have d: "distinct (map call_id (calls_of cs @ ?rest))"
    using R calls by (simp add: restores_def calls_in_message_def)
  then have distinct: "distinct (map call_id (calls_of cs))" "distinct (map call_id ?rest)"
    and "set (map call_id (calls_of cs)) \<inter> set (map call_id ?rest) = {}"
    by (simp_all only: map_append distinct_append)
  then have apart: "call_id c \<notin> call_id ` set (calls_of cs)" if "c \<in> set ?rest" for c
    using that by (auto simp del: set_concat)
  have "restorable t s m" using R by (simp add: restores_def)
  then have "\<forall>c \<in> set (calls_of cs). queued (by_parent s) (call_id c) = [Some (msg_id m)]"
    and "same_text (case draft_texts t (msg_id m) of None \<Rightarrow> [] | Some x \<Rightarrow> x) content"
    using calls by (simp_all add: restorable_def)
  from parent_holding_all [where texts = "draft_texts t", OF this(1) distinct(1) calls(2) this(2)]
  obtain q where q: "parent_holding (by_parent s) (calls_of cs) (draft_texts t) content = (Some (msg_id m), q)"
      and rest: "\<forall>j. j \<notin> call_id ` set (calls_of cs) \<longrightarrow> queued q j = queued (by_parent s) j"
    by blast
  have "restorable t (s\<lparr>by_parent := q\<rparr>) m'" if "m' \<in> set R" for m'
  proof -
    have "restorable t (s\<lparr>by_parent := q\<rparr>) m' = restorable t s m'"
    proof (rule restorable_cong)
      fix c assume "c \<in> set (calls_in_message m')"
      with that have "c \<in> set ?rest" by auto
      with apart rest show "queued (by_parent (s\<lparr>by_parent := q\<rparr>)) (call_id c)
          = queued (by_parent s) (call_id c)" by simp
    qed
    with R that show ?thesis by (simp add: restores_def)
  qed
  moreover have "queued (by_result s) j =
      map snd (filter (\<lambda>kv. fst kv = j) (List.map_filter result_key R))" for j
    using restores_results [OF R, of j] calls by (simp add: map_filter_simps result_key_payload)
  moreover have "text_ids s = map msg_id (filter (\<lambda>m. text_answer m \<noteq> None) R)"
    using R calls by (simp add: restores_def)
  ultimately have "restores t (s\<lparr>by_parent := q\<rparr>) R"
    using distinct(2) by (simp add: restores_def)
  with q show ?thesis by blast
qed

lemma restores_offer:
  assumes R: "restores t s (m # R)" and "payload n = payload m"
  shows "\<exists>s'. streamed_id t s n = (Some (msg_id m), s') \<and> restores t s' R"
proof (cases "payload m")
  case (ToolMsg x c)
  with restores_result [OF R ToolMsg] assms(2) show ?thesis by auto
next
  case (AssistantMsg content cs)
  with restores_answer [OF R AssistantMsg] restores_calls [OF R AssistantMsg] assms(2) show ?thesis
    by (cases "calls_of cs = []") auto
qed (use R in \<open>auto simp: restores_def restorable_def\<close>)

lemma lend_ids_restores:
  assumes "restores t s R" and "map body ms = map body R" and "distinct (map msg_id R)"
    and "taken \<inter> msg_id ` set R = {}"
  shows "lend_ids (streamed_id t) {} taken s ms = R"
  using assms
proof (induction R arbitrary: s ms taken)
  case (Cons m R)
  then obtain n ns where ms: "ms = n # ns" "body n = body m" "map body ns = map body R" by auto
  then have "payload n = payload m" by (simp add: body_eq_iff)
  from restores_offer [OF Cons.prems(1) this] obtain s'
    where s': "streamed_id t s n = (Some (msg_id m), s')" "restores t s' R" by blast
  have copy: "n\<lparr>msg_id := msg_id m\<rparr> = m"
    by (rule same_body_and_id) (simp_all add: ms(2))
  have rest: "lend_ids (streamed_id t) {} (insert (msg_id m) taken) s' ns = R"
  proof (rule Cons.IH [OF s'(2) ms(3)])
    show "distinct (map msg_id R)" using Cons.prems(3) by simp
    show "insert (msg_id m) taken \<inter> msg_id ` set R = {}" using Cons.prems(3,4) by simp
  qed
  have "msg_id m \<notin> taken" using Cons.prems(4) by auto
  then have "lend_ids (streamed_id t) {} taken s (n # ns) = n\<lparr>msg_id := msg_id m\<rparr> # R"
    using s'(1) rest by (simp del: streamed_id.simps)
  then show ?case unfolding ms(1) copy .
qed simp

text \<open>
  The streams whose every message is announced under an id of its own: no empty text message
  and every call streamed once, under the message that holds it.
\<close>

definition fully_announced :: "transcript \<Rightarrow> bool" where
  "fully_announced t \<longleftrightarrow>
     distinct (map msg_id (messages t))
     \<and> list_all (\<lambda>(i, x). x \<noteq> []) (text_drafts t)
     \<and> distinct (map call_id (concat (map calls_in_message (messages t))))
     \<and> list_all (\<lambda>m. list_all (\<lambda>c.
           map snd (filter (\<lambda>kv. fst kv = call_id c) (call_parents t)) = [Some (msg_id m)])
         (calls_in_message m)) (messages t)"

lemma result_keys_of_tools:
  "List.map_filter result_key (filter is_tool_message ms) = List.map_filter result_key ms"
  by (induction ms) (auto simp: map_filter_simps result_key_def split: payload.split)

lemma text_answers_of_items:
  assumes "list_all is_tool_message (results its)"
    and "list_all (\<lambda>(i, x). x \<noteq> [])
      (map (\<lambda>(i, d). (i, concat (draft_text d))) (filter (\<lambda>(i, d). draft_calls d = []) (drafts its)))"
  shows "map (\<lambda>m. (msg_id m, text_answer m))
      (filter (\<lambda>m. text_answer m \<noteq> None) (List.map_filter item_message its)) =
    map (\<lambda>(i, d). (i, Some (Some (concat (draft_text d)))))
      (filter (\<lambda>(i, d). draft_calls d = []) (drafts its))"
  using assms
proof (induction its rule: drafts.induct)
  case (2 d rest)
  then show ?case
    by (cases "draft_calls d = []") (simp_all add: map_filter_simps Let_def)
next
  case (3 m rest)
  then have "text_answer m = None" by (auto simp: text_answer_def split: payload.splits)
  with 3 show ?case by (simp add: map_filter_simps)
qed (simp add: map_filter_simps)

lemma results_mem: "ResultItem m \<in> set its \<Longrightarrow> m \<in> set (results its)"
  by (induction its rule: drafts.induct) auto

lemma item_messages_restorable:
  assumes "m \<in> set (List.map_filter item_message its)" and "list_all is_tool_message (results its)"
  shows "is_tool_message m \<or> (\<exists>d. DraftItem d \<in> set its \<and> msg_id m = draft_id d \<and>
    payload m = AssistantMsg (if concat (draft_text d) = [] then None else Some (concat (draft_text d)))
      (if draft_calls d = [] then None else Some (draft_calls d)))"
proof -
  obtain it where it: "it \<in> set its" "item_message it = Some m"
    using assms(1) by (auto simp: List.map_filter_def)
  show ?thesis
  proof (cases it)
    case (DraftItem d)
    with it show ?thesis by (intro disjI2 exI [of _ d]) (auto simp: Let_def split: if_splits)
  next
    case (ResultItem n)
    with it results_mem [of m its] assms(2) have "is_tool_message m"
      by (simp add: list_all_iff del: is_tool_message.simps)
    then show ?thesis by (rule disjI1)
  qed
qed

lemma drafts_mem: "DraftItem d \<in> set its \<Longrightarrow> (draft_id d, d) \<in> set (drafts its)"
  by (induction its rule: drafts.induct) auto

lemma draft_texts_of:
  assumes "transcript_ok t" and "DraftItem d \<in> set (items t)"
  shows "draft_texts t (draft_id d) = Some (concat (draft_text d))"
proof -
  have "distinct (map fst (map (\<lambda>(i, d). (i, concat (draft_text d))) (drafts (items t))))"
    using assms(1) by (simp add: transcript_ok_def comp_def case_prod_beta)
  moreover have "(draft_id d, concat (draft_text d))
      \<in> set (map (\<lambda>(i, d). (i, concat (draft_text d))) (drafts (items t)))"
    using drafts_mem [OF assms(2)] by force
  ultimately show ?thesis unfolding draft_texts_def by (rule map_of_rev)
qed

lemma by_position_same:
  "(\<And>p. p \<in> set T \<Longrightarrow> same (f p) (g p)) \<Longrightarrow>
     by_position (map (\<lambda>p. (h p, f p)) T) (map g T) same = map h T"
  by (auto simp: by_position_def zip_map_map zip_same_conv_map list_all_iff comp_def)

lemma announced_text_ids:
  assumes ok: "transcript_ok t" and full: "fully_announced t"
    and bodies: "map body ms = map body (messages t)"
  shows "text_ids (announced t ms) = map msg_id (filter (\<lambda>m. text_answer m \<noteq> None) (messages t))"
proof -
  have answer: "text_answer m = text_answer (body m)" for m by (simp add: text_answer_def body_def)
  have "List.map_filter text_answer ms = List.map_filter text_answer (map body ms)" for ms
    by (induction ms) (simp_all add: map_filter_simps answer [symmetric] split: option.split)
  then have same: "List.map_filter text_answer ms = List.map_filter text_answer (messages t)"
    by (metis bodies)
  let ?T = "filter (\<lambda>(i, d). draft_calls d = []) (drafts (items t))"
  have texts: "map (\<lambda>m. (msg_id m, text_answer m)) (filter (\<lambda>m. text_answer m \<noteq> None) (messages t))
      = map (\<lambda>(i, d). (i, Some (Some (concat (draft_text d))))) ?T"
    unfolding messages_def
    using ok full by (intro text_answers_of_items) (simp_all add: transcript_ok_def fully_announced_def text_drafts_def)
  have ids: "map msg_id (filter (\<lambda>m. text_answer m \<noteq> None) (messages t)) = map fst ?T"
    using arg_cong [OF texts, of "map fst"] by (simp add: comp_def case_prod_beta)
  have "List.map_filter text_answer (messages t)
      = map (the \<circ> snd) (map (\<lambda>m. (msg_id m, text_answer m))
          (filter (\<lambda>m. text_answer m \<noteq> None) (messages t)))"
    by (simp add: List.map_filter_def comp_def)
  then have contents: "List.map_filter text_answer ms = map (\<lambda>(i, d). Some (concat (draft_text d))) ?T"
    unfolding texts same by (simp add: comp_def case_prod_beta)
  have "by_position (text_drafts t) (List.map_filter text_answer ms) same_text = map fst ?T"
    unfolding contents text_drafts_def case_prod_beta
    by (rule by_position_same) (simp add: same_text_def)
  with ids show ?thesis by (simp add: announced_def)
qed

lemma announced_restorable:
  assumes ok: "transcript_ok t" and full: "fully_announced t" and m: "m \<in> set (messages t)"
  shows "restorable t (announced t ms) m"
proof -
  have queue: "queued (by_parent (announced t ms)) k =
      map snd (filter (\<lambda>kv. fst kv = k) (call_parents t))" for k
    by (simp add: announced_def queued_fold_enqueue)
  from m ok consider "is_tool_message m"
    | d where "DraftItem d \<in> set (items t)" "msg_id m = draft_id d"
      "payload m = AssistantMsg (if concat (draft_text d) = [] then None else Some (concat (draft_text d)))
        (if draft_calls d = [] then None else Some (draft_calls d))"
    using item_messages_restorable [of m "items t"] by (auto simp: messages_def transcript_ok_def)
  then show ?thesis
  proof cases
    case 1
    then show ?thesis by (auto simp: restorable_def split: payload.splits)
  next
    case 2
    from full m have "list_all (\<lambda>c. map snd (filter (\<lambda>kv. fst kv = call_id c) (call_parents t))
        = [Some (msg_id m)]) (calls_in_message m)"
      by (simp add: fully_announced_def list_all_iff)
    with 2 draft_texts_of [OF ok 2(1)] show ?thesis
      by (simp add: restorable_def queue list_all_iff calls_in_message_def same_text_def
          del: concat_eq_Nil_conv)
  qed
qed

lemma announced_restores:
  assumes ok: "transcript_ok t" and full: "fully_announced t"
    and bodies: "map body ms = map body (messages t)"
  shows "restores t (announced t ms) (messages t)"
  unfolding restores_def
proof (intro conjI allI ballI)
  show "queued (by_result (announced t ms)) c =
      map snd (filter (\<lambda>kv. fst kv = c) (List.map_filter result_key (messages t)))" for c
    using messages_tools [OF ok] result_keys_of_tools [of "messages t"]
    by (simp add: announced_def queued_fold_enqueue)
  show "text_ids (announced t ms) = map msg_id (filter (\<lambda>m. text_answer m \<noteq> None) (messages t))"
    by (rule announced_text_ids [OF assms])
  show "distinct (map call_id (concat (map calls_in_message (messages t))))"
    using full by (simp add: fully_announced_def)
  show "restorable t (announced t ms) m" if "m \<in> set (messages t)" for m
    by (rule announced_restorable [OF ok full that])
qed

text \<open>
  C2. A run that finishes is stored under the ids its client saw: when the dump holds the
  messages that streamed, each under a fresh id, and every message was announced under an id
  of its own, lending the streamed ids gives back exactly the messages the transcript would
  have stored had the run been cancelled.
\<close>

theorem fresh_dump_gets_streamed_ids:
  assumes "record_events new_transcript es = Inr t" and "fully_announced t"
    and "map body ms = map body (messages t)"
  shows "with_streamed_ids t ms = messages t"
proof -
  have "transcript_ok t" using assms(1) record_events_ok new_transcript_ok by blast
  moreover have "distinct (map msg_id (messages t))" using assms(2) by (simp add: fully_announced_def)
  ultimately show ?thesis
    unfolding with_streamed_ids_def
    using lend_ids_restores [OF announced_restores, of t ms ms "{}"] assms(2,3) by simp
qed

definition answered_run :: "event list" where
  "answered_run =
     [TextMessageStart ''m1'', TextMessageContent ''m1'' (ustr ''hi''),
      ToolCallStart ''c1'' ''search'' (Some ''m1''), ToolCallArgs ''c1'' (ustr ''{}''),
      ToolCallEnd ''c1'',
      ToolCallResult \<lparr>res_message_id = ''r1'', res_call_id = ''c1'', res_content = ustr ''ok'',
        res_metadata = None, res_extra = fmempty\<rparr>,
      TextMessageStart ''m2'', TextMessageContent ''m2'' (ustr ''done'')]"

definition answered_messages :: "message list" where
  "answered_messages =
     [plain_message ''m1'' (AssistantMsg (Some (ustr ''hi''))
        (Some [\<lparr>call_id = ''c1'', call_name = ''search'', call_arguments = ustr ''{}''\<rparr>])),
      plain_message ''r1'' (ToolMsg (ustr ''ok'') ''c1''),
      plain_message ''m2'' (AssistantMsg (Some (ustr ''done'')) None)]"

definition answered_transcript :: transcript where
  "answered_transcript = new_transcript\<lparr>
     items := [
       DraftItem \<lparr>draft_id = ''m1'', draft_text = [ustr ''hi''],
         draft_calls = [\<lparr>call_id = ''c1'', call_name = ''search'', call_arguments = ustr ''{}''\<rparr>]\<rparr>,
       ResultItem (plain_message ''r1'' (ToolMsg (ustr ''ok'') ''c1'')),
       DraftItem \<lparr>draft_id = ''m2'', draft_text = [ustr ''done''], draft_calls = []\<rparr>],
     call_parents := [(''c1'', Some ''m1'')]\<rparr>"

lemma answered_run_recorded: "record_events new_transcript answered_run = Inr answered_transcript"
  by (simp add: answered_run_def answered_transcript_def new_transcript_def draft_for_def
      new_draft_def add_text_def add_call_def draft_key_def tool_message_def)

lemma answered_transcript_messages: "messages answered_transcript = answered_messages"
  by (simp add: answered_transcript_def answered_messages_def messages_def map_filter_simps)

lemma answered_transcript_announced: "fully_announced answered_transcript"
  unfolding fully_announced_def answered_transcript_messages
  by (simp add: answered_messages_def calls_in_message_def answered_transcript_def text_drafts_def)

lemma fresh_dump_gets_streamed_ids_witness:
  "\<exists>t. record_events new_transcript answered_run = Inr t
     \<and> with_streamed_ids t (map (\<lambda>m. m\<lparr>msg_id := ''fresh-'' @ msg_id m\<rparr>) answered_messages)
         = answered_messages"
proof -
  let ?t = answered_transcript
  have "map body (map (\<lambda>m. m\<lparr>msg_id := ''fresh-'' @ msg_id m\<rparr>) answered_messages) = map body (messages ?t)"
    by (simp add: answered_transcript_messages)
  from fresh_dump_gets_streamed_ids [OF answered_run_recorded answered_transcript_announced this]
  show ?thesis
    using answered_run_recorded by (intro exI [of _ ?t]) (simp add: answered_transcript_messages)
qed

end
