(* ===== verification/LendStored.thy ===== *)
theory LendStored
  imports Lending
begin

text \<open>
  \<open>agent/lend_stored_ids.py\<close>: a resumed run's history is dumped from the step store's
  snapshot, and each message is given back the id the stored conversation row holds for it.
  The loop is the one of the theory \<open>Lending\<close>; here are the keys, the walk over the row and
  the pairing of activities by position.
\<close>

datatype match_key = ToolKey string | CallsKey "string list" | TextKey ustr

type_synonym keyed_row = "(match_key \<times> string) list"

definition flat :: "ustr option \<Rightarrow> ustr" where
  "flat t = without_newlines (case t of None \<Rightarrow> [] | Some x \<Rightarrow> x)"

definition kind_and_key :: "message \<Rightarrow> (string \<times> match_key) option" where
  "kind_and_key m =
     (case payload m of
        ToolMsg _ call \<Rightarrow> Some (''tool'', ToolKey call)
      | AssistantMsg content calls \<Rightarrow>
          if calls_of calls \<noteq> [] then Some (''calls'', CallsKey (map call_id (calls_of calls)))
          else Some (''text'', TextKey (flat content))
      | ReasoningMsg content \<Rightarrow> Some (''reasoning'', TextKey (flat (Some content)))
      | _ \<Rightarrow> None)"

text \<open>
  \<open>_next_match\<close>: the loop over \<open>range(cursors[kind], len(row))\<close> and the move of the cursor
  past the message taken. A missing cursor of the \<open>Counter\<close> is 0.
\<close>

fun scan_row :: "keyed_row \<Rightarrow> match_key \<Rightarrow> nat \<Rightarrow> nat \<Rightarrow> (string \<times> nat) option" where
  "scan_row row key index 0 = None"
| "scan_row row key index (Suc left) =
     (if fst (row ! index) = key then Some (snd (row ! index), index + 1)
      else scan_row row key (index + 1) left)"

definition next_match ::
    "(string \<rightharpoonup> keyed_row) \<Rightarrow> (string \<Rightarrow> nat) \<Rightarrow> string \<Rightarrow> match_key \<Rightarrow>
     string option \<times> (string \<Rightarrow> nat)" where
  "next_match rows cursors kind key =
     (let row = (case rows kind of None \<Rightarrow> [] | Some r \<Rightarrow> r) in
      case scan_row row key (cursors kind) (length row - cursors kind) of
        None \<Rightarrow> (None, cursors)
      | Some (i, after) \<Rightarrow> (Some i, cursors(kind := after)))"

definition rows_of :: "message list \<Rightarrow> (string \<rightharpoonup> keyed_row)" where
  "rows_of stored =
     fold (\<lambda>m rows. case kind_and_key m of
             None \<Rightarrow> rows | Some (kind, key) \<Rightarrow> enqueue kind (key, msg_id m) rows)
       stored Map.empty"

definition activity_key :: "message \<Rightarrow> (string \<times> dict) option" where
  "activity_key m = (case payload m of ActivityMsg ty content \<Rightarrow> Some (ty, content) | _ \<Rightarrow> None)"

text \<open>\<open>dumped\<close> and \<open>held\<close>: the activities per type, with their index in \<open>messages\<close>.\<close>

definition dumped_activities :: "message list \<Rightarrow> (string \<times> (nat \<times> message) list) list" where
  "dumped_activities ms =
     fold (\<lambda>(position, m) dumped. case activity_key m of
             None \<Rightarrow> dumped | Some (ty, _) \<Rightarrow> dict_append ty (position, m) dumped)
       (enumerate 0 ms) []"

definition held_activities :: "message list \<Rightarrow> (string \<rightharpoonup> message list)" where
  "held_activities stored =
     fold (\<lambda>m held. case activity_key m of None \<Rightarrow> held | Some (ty, _) \<Rightarrow> enqueue ty m held)
       stored Map.empty"

fun same_activity :: "message \<Rightarrow> message \<Rightarrow> bool" where
  "same_activity found m =
     (case (payload found, payload m) of
        (ActivityMsg _ c, ActivityMsg _ d) \<Rightarrow> dict_eq c d | _ \<Rightarrow> False)"

definition pair_type ::
    "(string \<rightharpoonup> message list) \<Rightarrow> string \<times> (nat \<times> message) list \<Rightarrow> (nat \<rightharpoonup> string) \<Rightarrow> (nat \<rightharpoonup> string)"
where
  "pair_type held typed paired =
     (case typed of (ty, wanted) \<Rightarrow>
       (let row = take (length wanted) (queued held ty) in
        if length row < length wanted then paired
        else if list_all (\<lambda>((_, m), found). same_activity found m) (zip wanted row)
        then paired ++ map_of (rev (map (\<lambda>((position, _), found). (position, msg_id found)) (zip wanted row)))
        else paired))"

definition paired_activities :: "message list \<Rightarrow> message list \<Rightarrow> (nat \<rightharpoonup> string)" where
  "paired_activities ms stored =
     fold (pair_type (held_activities stored)) (dumped_activities ms) Map.empty"

section \<open>The walk\<close>

record walk =
  cursor :: "string \<Rightarrow> nat"
  position :: nat

definition stored_id ::
    "(string \<rightharpoonup> keyed_row) \<Rightarrow> (nat \<rightharpoonup> string) \<Rightarrow> walk \<Rightarrow> message \<Rightarrow> string option \<times> walk" where
  "stored_id rows activities w m =
     (let w' = w\<lparr>position := position w + 1\<rparr> in
      if activity_key m \<noteq> None then (activities (position w), w')
      else case kind_and_key m of
             None \<Rightarrow> (None, w')
           | Some (kind, key) \<Rightarrow>
               (case next_match rows (cursor w) kind key of
                  (i, cursors) \<Rightarrow> (i, w'\<lparr>cursor := cursors\<rparr>)))"

definition lend_stored_ids :: "message list \<Rightarrow> message list \<Rightarrow> string set \<Rightarrow> message list" where
  "lend_stored_ids ms stored reserved =
     lend_ids (stored_id (rows_of stored) (paired_activities ms stored))
       (set (map msg_id ms)) reserved \<lparr>cursor = \<lambda>_. 0, position = 0\<rparr> ms"

section \<open>The rows and the groups\<close>

definition of_kind :: "string \<Rightarrow> message \<Rightarrow> (match_key \<times> string) option" where
  "of_kind kind m =
     (case kind_and_key m of
        Some (k, key) \<Rightarrow> if k = kind then Some (key, msg_id m) else None
      | None \<Rightarrow> None)"

definition is_activity :: "string \<Rightarrow> message \<Rightarrow> bool" where
  "is_activity ty m = (map_option fst (activity_key m) = Some ty)"

lemma queued_rows_of: "queued (rows_of stored) kind = List.map_filter (of_kind kind) stored"
proof -
  have "queued (fold (\<lambda>m rows. case kind_and_key m of
             None \<Rightarrow> rows | Some (k, key) \<Rightarrow> enqueue k (key, msg_id m) rows) stored q) kind
      = queued q kind @ List.map_filter (of_kind kind) stored" for q
    by (induction stored arbitrary: q)
       (auto simp: queued_enqueue of_kind_def map_filter_simps split: option.split)
  then show ?thesis by (simp add: rows_of_def)
qed

lemma rows_of_row: "(case rows_of stored kind of None \<Rightarrow> [] | Some r \<Rightarrow> r) = List.map_filter (of_kind kind) stored"
  using queued_rows_of [of stored kind] by (simp add: queued_def)

lemma queued_held: "queued (held_activities stored) ty = filter (is_activity ty) stored"
proof -
  have "queued (fold (\<lambda>m held. case activity_key m of None \<Rightarrow> held | Some (t, _) \<Rightarrow> enqueue t m held)
        stored q) ty = queued q ty @ filter (is_activity ty) stored" for q
    by (induction stored arbitrary: q)
       (auto simp: queued_enqueue is_activity_def split: option.split)
  then show ?thesis by (simp add: held_activities_def)
qed

definition wanted_of :: "string \<Rightarrow> message list \<Rightarrow> (nat \<times> message) list" where
  "wanted_of ty ms = filter (is_activity ty \<circ> snd) (enumerate 0 ms)"

lemma dumped_fold:
  fixes pms :: "(nat \<times> message) list" and d :: "(string \<times> (nat \<times> message) list) list"
  defines "g \<equiv> \<lambda>(position, m) dumped. case activity_key m of
             None \<Rightarrow> dumped | Some (ty, _) \<Rightarrow> dict_append ty (position, m) dumped"
  shows "map_of (fold g pms d) ty =
     (case map_of d ty of
        None \<Rightarrow> (if filter (is_activity ty \<circ> snd) pms = [] then None
                else Some (filter (is_activity ty \<circ> snd) pms))
      | Some xs \<Rightarrow> Some (xs @ filter (is_activity ty \<circ> snd) pms))
    \<and> (distinct (map fst d) \<longrightarrow> distinct (map fst (fold g pms d)))"
proof (induction pms arbitrary: d)
  case (Cons pm pms)
  obtain p m where pm: "pm = (p, m)" by fastforce
  show ?case
  proof (cases "activity_key m")
    case None
    with Cons [of d] pm show ?thesis by (simp add: g_def is_activity_def split: option.splits)
  next
    case (Some tc)
    then obtain t c where tc: "activity_key m = Some (t, c)" by (cases tc) auto
    with Cons [of "dict_append t (p, m) d"] pm show ?thesis
      by (auto simp: g_def is_activity_def map_of_dict_append distinct_dict_append split: option.splits)
  qed
qed (simp split: option.split)

lemma dumped_activities_iff:
  "(ty, wanted) \<in> set (dumped_activities ms) \<longleftrightarrow> wanted = wanted_of ty ms \<and> wanted \<noteq> []"
proof -
  have "distinct (map fst (dumped_activities ms))"
    and "map_of (dumped_activities ms) ty = (if wanted_of ty ms = [] then None else Some (wanted_of ty ms))"
    using dumped_fold [of "enumerate 0 ms" "[]" ty]
    by (simp_all add: dumped_activities_def wanted_of_def)
  then show ?thesis
    by (metis (no_types, lifting) map_of_SomeD map_of_is_SomeI option.distinct(1) option.inject)
qed

definition paired_for ::
    "(string \<rightharpoonup> message list) \<Rightarrow> string \<times> (nat \<times> message) list \<Rightarrow> (nat \<rightharpoonup> string)" where
  "paired_for held typed = pair_type held typed Map.empty"

lemma pair_type_add: "pair_type held typed paired = paired ++ paired_for held typed"
  by (cases typed) (simp add: paired_for_def pair_type_def Let_def)

lemma paired_for_SomeD:
  assumes "paired_for held (ty, wanted) p = Some i"
  shows "\<exists>m r. (p, m) \<in> set wanted \<and> r \<in> set (queued held ty) \<and> same_activity r m \<and> msg_id r = i"
proof -
  let ?row = "take (length wanted) (queued held ty)"
  have all: "list_all (\<lambda>((_, m), found). same_activity found m) (zip wanted ?row)"
    and "map_of (rev (map (\<lambda>((position, _), found). (position, msg_id found)) (zip wanted ?row))) p = Some i"
    using assms by (auto simp: paired_for_def pair_type_def Let_def simp del: same_activity.simps split: if_splits)
  then obtain m r where "((p, m), r) \<in> set (zip wanted ?row)" "msg_id r = i"
    by (auto dest!: map_of_SomeD)
  with all show ?thesis
    by (intro exI [of _ m] exI [of _ r])
       (auto simp: list_all_iff simp del: same_activity.simps dest: set_zip_leftD set_zip_rightD in_set_takeD)
qed

lemma fold_pair_type_SomeD:
  "fold (pair_type held) typed P p = Some i \<Longrightarrow>
     P p = Some i \<or> (\<exists>x \<in> set typed. paired_for held x p = Some i)"
  by (induction typed arbitrary: P) (fastforce simp: pair_type_add)+

lemma paired_activities_SomeD:
  assumes "paired_activities ms stored p = Some i"
  shows "p < length ms \<and> (\<exists>r \<in> set stored. msg_id r = i \<and> same_activity r (ms ! p)
    \<and> map_option fst (activity_key r) = map_option fst (activity_key (ms ! p)))"
proof -
  obtain ty wanted where x: "(ty, wanted) \<in> set (dumped_activities ms)"
      "paired_for (held_activities stored) (ty, wanted) p = Some i"
    using fold_pair_type_SomeD [of "held_activities stored" "dumped_activities ms" Map.empty p i] assms
    by (auto simp: paired_activities_def)
  from paired_for_SomeD [OF x(2)] x(1) obtain m r where
    "(p, m) \<in> set (wanted_of ty ms)" "r \<in> set stored" "is_activity ty r" "same_activity r m" "msg_id r = i"
    by (auto simp: dumped_activities_iff queued_held simp del: same_activity.simps)
  moreover from this(1) have "p < length ms" "m = ms ! p" "is_activity ty m"
    by (auto simp: wanted_of_def in_set_enumerate_eq)
  ultimately show ?thesis by (auto simp: is_activity_def simp del: same_activity.simps)
qed

section \<open>The walk over one kind\<close>

lemma scan_row_SomeD:
  "scan_row row key n left = Some (i, k) \<Longrightarrow> n + left = length row \<Longrightarrow>
     n < k \<and> k \<le> length row \<and> row ! (k - 1) = (key, i)"
proof (induction row key n left rule: scan_row.induct)
  case (2 row key n left)
  show ?case
  proof (cases "fst (row ! n) = key")
    case True
    with 2 show ?thesis by (auto simp: prod_eq_iff)
  next
    case False
    with 2(2) have "scan_row row key (n + 1) left = Some (i, k)" by simp
    moreover from 2(3) have "n + 1 + left = length row" by simp
    ultimately show ?thesis using 2(1) [OF False] by simp
  qed
qed simp

lemma next_match_Some:
  assumes "next_match rows cursors kind key = (Some i, cursors')"
    and "\<And>k. cursors k \<le> length (queued rows k)"
  shows "\<exists>n. cursors' = cursors(kind := n) \<and> cursors kind < n \<and> n \<le> length (queued rows kind)
    \<and> queued rows kind ! (n - 1) = (key, i)"
proof -
  let ?row = "queued rows kind"
  from assms(1) obtain n where
    n: "scan_row ?row key (cursors kind) (length ?row - cursors kind) = Some (i, n)"
      "cursors' = cursors(kind := n)"
    by (auto simp: next_match_def Let_def queued_def split: option.splits)
  with scan_row_SomeD [OF n(1)] assms(2) [of kind] show ?thesis by auto
qed

lemma next_match_None:
  "next_match rows cursors kind key = (None, cursors') \<Longrightarrow> cursors' = cursors"
  by (auto simp: next_match_def Let_def split: option.splits)

fun offers :: "('s \<Rightarrow> message \<Rightarrow> string option \<times> 's) \<Rightarrow> 's \<Rightarrow> message list \<Rightarrow> string option list" where
  "offers offer s [] = []"
| "offers offer s (m # ms) = (case offer s m of (x, s') \<Rightarrow> x # offers offer s' ms)"

text \<open>The row entries of one kind the messages were offered, as key and id.\<close>

definition offered_of_kind :: "string \<Rightarrow> message list \<Rightarrow> string option list \<Rightarrow> keyed_row" where
  "offered_of_kind kind ms xs =
     List.map_filter (\<lambda>(m, x). Option.bind x (\<lambda>i. of_kind kind (m\<lparr>msg_id := i\<rparr>))) (zip ms xs)"

lemma of_kind_copy:
  "of_kind kind (m\<lparr>msg_id := i\<rparr>) =
     (case kind_and_key m of
        Some (k, key) \<Rightarrow> if k = kind then Some (key, i) else None | None \<Rightarrow> None)"
proof -
  have "kind_and_key (m\<lparr>msg_id := i\<rparr>) = kind_and_key m" by (simp add: kind_and_key_def)
  then show ?thesis by (simp add: of_kind_def split: option.split)
qed

lemma activity_no_key: "activity_key m \<noteq> None \<Longrightarrow> kind_and_key m = None"
  by (auto simp: activity_key_def kind_and_key_def split: payload.splits)

lemma subseq_drop_later:
  assumes "n < k" and "k \<le> length xs" and "xs ! (k - 1) = x" and "subseq ys (drop k xs)"
  shows "subseq (x # ys) (drop n xs)"
proof -
  have "drop n xs = take (k - 1 - n) (drop n xs) @ x # drop k xs"
    using assms(1-3) id_take_nth_drop [of "k - 1 - n" "drop n xs"] by simp
  moreover have "subseq (x # ys) (take (k - 1 - n) (drop n xs) @ x # drop k xs)"
    using assms(4) by (meson list_emb_append2 subseq_Cons2_iff)
  ultimately show ?thesis by simp
qed

lemma offers_in_order:
  assumes "\<And>k. cursor w k \<le> length (queued rows k)"
  shows "subseq (offered_of_kind kind ms (offers (stored_id rows acts) w ms))
    (drop (cursor w kind) (queued rows kind))"
  using assms
proof (induction ms arbitrary: w)
  case (Cons m ms)
  let ?w' = "w\<lparr>position := position w + 1\<rparr>"
  have same: "subseq (offered_of_kind kind ms (offers (stored_id rows acts) ?w' ms))
      (drop (cursor w kind) (queued rows kind))"
    using Cons.IH [of ?w'] Cons.prems by simp
  show ?case
  proof (cases "kind_and_key m")
    case None
    then have "of_kind kind (m\<lparr>msg_id := i\<rparr>) = None" for i by (simp add: of_kind_copy)
    then have "Option.bind x (\<lambda>i. of_kind kind (m\<lparr>msg_id := i\<rparr>)) = None" for x by (cases x) auto
    moreover obtain x where "stored_id rows acts w m = (x, ?w')"
      by (cases "activity_key m") (simp_all add: stored_id_def None)
    ultimately show ?thesis using same by (simp add: offered_of_kind_def map_filter_simps)
  next
    case (Some kk)
    then obtain k key where kk: "kind_and_key m = Some (k, key)" by (cases kk) auto
    then have no_act: "activity_key m = None" using activity_no_key by fastforce
    obtain x cursors where n: "next_match rows (cursor w) k key = (x, cursors)" by fastforce
    let ?w'' = "?w'\<lparr>cursor := cursors\<rparr>"
    have step: "stored_id rows acts w m = (x, ?w'')" using kk no_act n by (simp add: stored_id_def)
    show ?thesis
    proof (cases x)
      case None
      with n have "cursors = cursor w" by (auto dest: next_match_None)
      with None step same show ?thesis by (simp add: offered_of_kind_def map_filter_simps)
    next
      case (Some i)
      with n Cons.prems obtain c where c: "cursors = (cursor w)(k := c)" "cursor w k < c"
          "c \<le> length (queued rows k)" "queued rows k ! (c - 1) = (key, i)"
        using next_match_Some [of rows "cursor w" k key i cursors] by blast
      then have bound: "cursor ?w'' j \<le> length (queued rows j)" for j using Cons.prems by simp
      have rest: "subseq (offered_of_kind kind ms (offers (stored_id rows acts) ?w'' ms))
          (drop (cursor ?w'' kind) (queued rows kind))"
        by (rule Cons.IH) (rule bound)
      show ?thesis
      proof (cases "k = kind")
        case True
        with c rest have "subseq ((key, i) # offered_of_kind kind ms (offers (stored_id rows acts) ?w'' ms))
            (drop (cursor w kind) (queued rows kind))"
          by (intro subseq_drop_later [of _ c]) simp_all
        with True Some step kk show ?thesis
          by (simp add: offered_of_kind_def map_filter_simps of_kind_copy)
      next
        case False
        with c rest Some step kk show ?thesis
          by (simp add: offered_of_kind_def map_filter_simps of_kind_copy)
      qed
    qed
  qed
qed (simp add: offered_of_kind_def map_filter_simps)

section \<open>What a lent id stands for\<close>

definition stands_for :: "message list \<Rightarrow> message \<Rightarrow> string \<Rightarrow> bool" where
  "stands_for stored m i \<longleftrightarrow>
     (\<exists>r \<in> set stored. msg_id r = i
        \<and> (if activity_key m = None then kind_and_key m \<noteq> None \<and> kind_and_key r = kind_and_key m
           else map_option fst (activity_key r) = map_option fst (activity_key m) \<and> same_activity r m))"

definition walked :: "message list \<Rightarrow> message list \<Rightarrow> walk \<Rightarrow> message list \<Rightarrow> bool" where
  "walked stored ms w R \<longleftrightarrow>
     R = drop (position w) ms \<and> (\<forall>k. cursor w k \<le> length (queued (rows_of stored) k))"

lemma stored_id_cases:
  assumes "stored_id rows acts w m = (x, w')"
  obtains (activity) "activity_key m \<noteq> None" "x = acts (position w)"
      "w' = w\<lparr>position := position w + 1\<rparr>"
    | (other) "activity_key m = None" "kind_and_key m = None" "x = None"
      "w' = w\<lparr>position := position w + 1\<rparr>"
    | (keyed) kind key cursors where "activity_key m = None" "kind_and_key m = Some (kind, key)"
      "next_match rows (cursor w) kind key = (x, cursors)"
      "w' = w\<lparr>position := position w + 1, cursor := cursors\<rparr>"
proof (cases "activity_key m")
  case None
  show thesis
  proof (cases "kind_and_key m")
    case None
    with \<open>activity_key m = None\<close> assms show thesis by (intro other) (simp_all add: stored_id_def)
  next
    case (Some kk)
    obtain cursors where "next_match rows (cursor w) (fst kk) (snd kk) = (x, cursors)"
        "w' = w\<lparr>position := position w + 1, cursor := cursors\<rparr>"
      using Some None assms by (auto simp: stored_id_def split: prod.splits)
    with None Some show thesis by (intro keyed [of "fst kk" "snd kk"]) simp_all
  qed
next
  case (Some a)
  with assms show thesis by (intro activity) (simp_all add: stored_id_def)
qed

lemma walked_offered:
  assumes "walked stored ms w (m # R)"
    and o: "stored_id (rows_of stored) (paired_activities ms stored) w m = (Some i, w')"
  shows "stands_for stored m i"
  using o
proof (cases rule: stored_id_cases)
  case activity
  then have "paired_activities ms stored (position w) = Some i" by simp
  moreover have "ms ! position w = m" using assms(1) by (metis nth_via_drop walked_def)
  ultimately obtain r where "r \<in> set stored" "msg_id r = i" "same_activity r m"
      "map_option fst (activity_key r) = map_option fst (activity_key m)"
    using paired_activities_SomeD by blast
  with activity(1) show ?thesis unfolding stands_for_def by (intro bexI [of _ r]) auto
next
  case (keyed kind key cursors)
  obtain n where "cursor w kind < n" "n \<le> length (queued (rows_of stored) kind)"
      "queued (rows_of stored) kind ! (n - 1) = (key, i)"
    using next_match_Some [OF keyed(3)] assms(1) by (auto simp: walked_def)
  then have "(key, i) \<in> set (queued (rows_of stored) kind)"
    by (metis One_nat_def diff_Suc_less less_le_trans not_less_zero nth_mem gr0I)
  then obtain r where "r \<in> set stored" "of_kind kind r = Some (key, i)"
    by (auto simp: queued_rows_of List.map_filter_def)
  with keyed(1,2) show ?thesis
    by (auto simp: stands_for_def of_kind_def split: option.splits if_splits)
qed simp_all

lemma walked_onward:
  assumes w: "walked stored ms w (m # R)"
    and o: "stored_id (rows_of stored) (paired_activities ms stored) w m = (x, w')"
  shows "walked stored ms w' R"
proof -
  have drop: "R = drop (Suc (position w)) ms" using w by (metis walked_def drop_Suc tl_drop list.sel(3))
  show ?thesis
    using o
  proof (cases rule: stored_id_cases)
    case (keyed kind key cursors)
    have bound: "cursor w k \<le> length (queued (rows_of stored) k)" for k using w by (simp add: walked_def)
    have "cursors k \<le> length (queued (rows_of stored) k)" for k
    proof (cases x)
      case None
      with keyed(3) bound show ?thesis by (auto dest: next_match_None)
    next
      case (Some i)
      with next_match_Some [OF keyed(3) [unfolded Some] bound] bound show ?thesis by auto
    qed
    with keyed drop show ?thesis by (simp add: walked_def)
  qed (use w drop in \<open>simp_all add: walked_def\<close>)
qed

interpretation stored_walk: id_lender
  "stored_id (rows_of stored) (paired_activities ms stored)" "walked stored ms" "stands_for stored"
  for stored ms
  by unfold_locales (rule walked_offered walked_onward; assumption)+

lemma walked_start: "walked stored ms \<lparr>cursor = \<lambda>_. 0, position = 0\<rparr> ms"
  by (simp add: walked_def)

lemma lend_stored_bodies: "map body (lend_stored_ids ms stored reserved) = map body ms"
  unfolding lend_stored_ids_def by (rule lend_ids_bodies)

text \<open>
  C10. Naming a resumed history after the stored row changes ids and nothing else; the ids lent
  are pairwise different, none is reserved for the new turn or carried by any message of the
  history, and each is the id of a row message that holds the same call, calls, text or
  activity. A history without repeated ids comes out without repeated ids.
\<close>

theorem lend_stored_ids_stores_no_id_twice:
  assumes "distinct (map msg_id ms)"
  shows "map body (lend_stored_ids ms stored reserved) = map body ms
    \<and> distinct (map msg_id (lend_stored_ids ms stored reserved))
    \<and> set (changed_ids ms (lend_stored_ids ms stored reserved)) \<inter> (reserved \<union> msg_id ` set ms) = {}
    \<and> list_all2 (\<lambda>m n. n = m \<or> (\<exists>i. n = m\<lparr>msg_id := i\<rparr> \<and> stands_for stored m i))
        ms (lend_stored_ids ms stored reserved)"
proof (intro conjI)
  show "map body (lend_stored_ids ms stored reserved) = map body ms"
    unfolding lend_stored_ids_def by (rule lend_ids_bodies)
  show "distinct (map msg_id (lend_stored_ids ms stored reserved))"
    unfolding lend_stored_ids_def
    by (rule stored_walk.distinct_ids [OF walked_start assms]) simp
  show "set (changed_ids ms (lend_stored_ids ms stored reserved)) \<inter> (reserved \<union> msg_id ` set ms) = {}"
    unfolding lend_stored_ids_def
    using lend_ids_changed [of ms "stored_id (rows_of stored) (paired_activities ms stored)"
        "set (map msg_id ms)" reserved "\<lparr>cursor = \<lambda>_. 0, position = 0\<rparr>"] by simp
  show "list_all2 (\<lambda>m n. n = m \<or> (\<exists>i. n = m\<lparr>msg_id := i\<rparr> \<and> stands_for stored m i))
      ms (lend_stored_ids ms stored reserved)"
    unfolding lend_stored_ids_def
    by (rule list_all2_mono [OF stored_walk.lent_ids_fit [OF walked_start]]) blast
qed

text \<open>
  The row is walked in order: for every kind of message, the row entries offered to the
  history's messages of that kind, in their order, form a subsequence of the row's entries of
  that kind, each under the key of the message it was offered to; so a repeated answer never
  takes the id of an earlier one.
\<close>

theorem stored_ids_are_offered_in_order:
  "subseq
     (offered_of_kind kind ms
       (offers (stored_id (rows_of stored) (paired_activities ms stored))
          \<lparr>cursor = \<lambda>_. 0, position = 0\<rparr> ms))
     (List.map_filter (of_kind kind) stored)"
  using offers_in_order [of "\<lparr>cursor = \<lambda>_. 0, position = 0\<rparr>" "rows_of stored" kind ms
      "paired_activities ms stored"]
  by (simp add: queued_rows_of)

section \<open>A history that is the row's beginning\<close>

lemma zip_filter:
  "list_all2 (\<lambda>x y. P x = Q y) xs ys \<Longrightarrow>
     zip (filter P xs) (filter Q ys) = filter (\<lambda>(x, y). P x) (zip xs ys)"
  by (induction rule: list_all2_induct) auto

lemma length_filter_all2: "list_all2 (\<lambda>x y. P x = Q y) xs ys \<Longrightarrow> length (filter P xs) = length (filter Q ys)"
  by (induction rule: list_all2_induct) auto

lemma same_body_keys:
  assumes "body m = body r"
  shows "kind_and_key m = kind_and_key r" "activity_key m = activity_key r" "is_activity ty m = is_activity ty r"
    "activity_key m \<noteq> None \<Longrightarrow> same_activity r m"
  using assms
  by (auto simp: body_eq_iff kind_and_key_def activity_key_def is_activity_def split: payload.splits)

lemma fold_pair_type_Some:
  assumes "\<And>y j. y \<in> set typed \<Longrightarrow> paired_for held y p = Some j \<Longrightarrow> j = i"
    and "P p = Some i \<or> P p = None \<and> (\<exists>x \<in> set typed. paired_for held x p = Some i)"
  shows "fold (pair_type held) typed P p = Some i"
  using assms
proof (induction typed arbitrary: P)
  case (Cons y typed)
  have "(P ++ paired_for held y) p = Some i
      \<or> (P ++ paired_for held y) p = None \<and> (\<exists>x \<in> set typed. paired_for held x p = Some i)"
    using Cons.prems(1) [of y] Cons.prems(2) by (cases "paired_for held y p") (auto simp: map_add_def)
  with Cons.prems(1) have "fold (pair_type held) typed (P ++ paired_for held y) p = Some i"
    by (intro Cons.IH) auto
  then show ?case by (simp add: pair_type_add [of held y P])
qed simp

lemma all2_enumerate:
  assumes "map body ms = map body (take (length ms) stored)"
  shows "list_all2 (\<lambda>x r. body (snd x) = body r) (enumerate 0 ms) (take (length ms) stored)"
proof -
  have "list_all2 (\<lambda>m r. body m = body r) ms (take (length ms) stored)"
    using assms by (simp add: list_all2_map1 list_all2_map2 list.rel_eq [symmetric])
  then show ?thesis
    by (simp add: list_all2_conv_all_nth nth_enumerate_eq)
qed

text \<open>The activities of one type and the row's, when the history is the row's beginning.\<close>

lemma prefix_pairs:
  fixes t :: string
  assumes bodies: "map body ms = map body (take (length ms) stored)"
  defines "row \<equiv> filter (is_activity t) (take (length ms) stored)"
  shows "take (length (wanted_of t ms)) (queued (held_activities stored) t) = row"
    and "zip (wanted_of t ms) row
      = filter (\<lambda>(x, r). (is_activity t \<circ> snd) x) (zip (enumerate 0 ms) (take (length ms) stored))"
    and "length row = length (wanted_of t ms)"
proof -
  have is_act: "list_all2 (\<lambda>x r. (is_activity t \<circ> snd) x = is_activity t r) (enumerate 0 ms) (take (length ms) stored)"
    by (rule list_all2_mono [OF all2_enumerate [OF bodies]]) (unfold comp_def, rule same_body_keys(3))
  then show len: "length row = length (wanted_of t ms)"
    unfolding wanted_of_def row_def by (rule length_filter_all2 [symmetric])
  show "zip (wanted_of t ms) row
      = filter (\<lambda>(x, r). (is_activity t \<circ> snd) x) (zip (enumerate 0 ms) (take (length ms) stored))"
    unfolding wanted_of_def row_def by (rule zip_filter [OF is_act])
  have "filter (is_activity t) stored = row @ filter (is_activity t) (drop (length ms) stored)"
    unfolding row_def by (metis append_take_drop_id filter_append)
  with len show "take (length (wanted_of t ms)) (queued (held_activities stored) t) = row"
    by (simp add: queued_held)
qed

lemma prefix_pair_same:
  assumes "map body ms = map body (take (length ms) stored)"
    and "((q, m), r) \<in> set (zip (enumerate 0 ms) (take (length ms) stored))" and "is_activity t m"
  shows "same_activity r m"
proof -
  have "length (take (length ms) stored) = length ms" using assms(1) by (metis length_map)
  then have q: "q < length ms" "m = ms ! q" "r = stored ! q"
    using assms(2) by (auto simp: set_zip nth_enumerate_eq)
  then have "body m = body r" using assms(1) by (metis length_map nth_map nth_take)
  moreover have "activity_key m \<noteq> None" using assms(3) by (auto simp: is_activity_def)
  ultimately show ?thesis by (rule same_body_keys(4))
qed

lemma prefix_lookup:
  assumes bodies: "map body ms = map body (take (length ms) stored)"
    and p: "p < length ms" and act: "activity_key (ms ! p) = Some (ty, c)"
  shows "paired_for (held_activities stored) (ty, wanted_of ty ms) p = Some (msg_id (stored ! p))"
proof -
  let ?row = "filter (is_activity ty) (take (length ms) stored)"
  let ?Z = "zip (wanted_of ty ms) ?row"
  let ?ids = "map (\<lambda>((position, _), found). (position, msg_id found)) ?Z"
  note pairs = prefix_pairs [OF bodies, of ty]
  have same: "list_all (\<lambda>((_, m), found). same_activity found m) ?Z"
    unfolding pairs(2) using prefix_pair_same [OF bodies]
    by (auto simp: list_all_iff simp del: same_activity.simps)
  have "length (take (length ms) stored) = length ms" using bodies by (metis length_map)
  then have "((p, ms ! p), stored ! p) \<in> set ?Z"
    unfolding pairs(2) using p act
    by (auto simp: is_activity_def set_zip nth_enumerate_eq intro!: exI [of _ p])
  then have "(p, msg_id (stored ! p)) \<in> set ?ids" by force
  moreover have "map fst ?ids = map fst (map fst ?Z)" by (simp add: comp_def case_prod_beta)
  moreover have "map fst ?Z = wanted_of ty ms" by (rule map_fst_zip) (simp add: pairs(3))
  moreover have "distinct (map fst (wanted_of ty ms))"
    unfolding wanted_of_def by (rule distinct_map_filter) (simp add: map_fst_enumerate)
  ultimately have "map_of (rev ?ids) p = Some (msg_id (stored ! p))" by (intro map_of_rev) simp_all
  with same pairs(3) show ?thesis
    unfolding paired_for_def pair_type_def
    by (simp add: pairs(1) Let_def del: same_activity.simps length_take)
qed

lemma paired_activities_prefix:
  assumes bodies: "map body ms = map body (take (length ms) stored)"
    and p: "p < length ms" and act: "activity_key (ms ! p) = Some (ty, c)"
  shows "paired_activities ms stored p = Some (msg_id (stored ! p))"
proof -
  let ?held = "held_activities stored"
  note lookup = prefix_lookup [OF assms]
  have "(p, ms ! p) \<in> set (wanted_of ty ms)"
    using p act by (simp add: wanted_of_def is_activity_def in_set_enumerate_eq)
  then have "(ty, wanted_of ty ms) \<in> set (dumped_activities ms)"
    by (auto simp: dumped_activities_iff)
  moreover have "i = msg_id (stored ! p)"
    if y_in: "y \<in> set (dumped_activities ms)" and found: "paired_for ?held y p = Some i" for y i
  proof -
    obtain t where y: "y = (t, wanted_of t ms)" using y_in by (metis dumped_activities_iff surj_pair)
    with found obtain m where "(p, m) \<in> set (wanted_of t ms)" using paired_for_SomeD by blast
    then have "t = ty" using act by (auto simp: wanted_of_def in_set_enumerate_eq is_activity_def)
    with y found lookup show ?thesis by simp
  qed
  ultimately show ?thesis
    unfolding paired_activities_def using lookup by (intro fold_pair_type_Some) blast+
qed

definition walked_exactly :: "message list \<Rightarrow> message list \<Rightarrow> walk \<Rightarrow> message list \<Rightarrow> bool" where
  "walked_exactly stored ms w R \<longleftrightarrow>
     position w \<le> length ms \<and> R = drop (position w) ms
     \<and> (\<forall>k. cursor w k = length (List.map_filter (of_kind k) (take (position w) stored)))"

definition has_key :: "message \<Rightarrow> bool" where
  "has_key m \<longleftrightarrow> activity_key m \<noteq> None \<or> kind_and_key m \<noteq> None"

lemma walked_keyed:
  assumes kind: "\<And>k. of_kind k (stored ! p) = (if k = kind then Some (key, i) else None)"
    and p: "p < length stored"
    and cursor: "cursors kind = length (List.map_filter (of_kind kind) (take p stored))"
  shows "next_match (rows_of stored) cursors kind key = (Some i, cursors(kind := cursors kind + 1))"
proof -
  let ?row = "queued (rows_of stored) kind"
  have split: "stored = take p stored @ stored ! p # drop (Suc p) stored"
    using p by (simp add: id_take_nth_drop)
  have row: "?row = List.map_filter (of_kind kind) (take p stored) @ (key, i)
      # List.map_filter (of_kind kind) (drop (Suc p) stored)"
    unfolding queued_rows_of by (subst split) (simp add: map_filter_append map_filter_simps kind)
  then have "length ?row - cursors kind = Suc (length (List.map_filter (of_kind kind) (drop (Suc p) stored)))"
    by (simp add: cursor)
  then have "scan_row ?row key (cursors kind) (length ?row - cursors kind) = Some (i, cursors kind + 1)"
    by (simp add: row cursor)
  then show ?thesis by (simp add: next_match_def Let_def queued_def)
qed

lemma walked_exactly_offer:
  assumes w: "walked_exactly stored ms w (m # R)"
    and bodies: "map body ms = map body (take (length ms) stored)"
  shows "\<exists>w'. stored_id (rows_of stored) (paired_activities ms stored) w m
      = (if has_key m then Some (msg_id (stored ! position w)) else None, w')
    \<and> walked_exactly stored ms w' R"
proof -
  let ?p = "position w" and ?w' = "w\<lparr>position := position w + 1\<rparr>"
  let ?r = "stored ! ?p"
  have drop: "m # R = drop ?p ms" using w by (simp add: walked_exactly_def)
  then have p: "?p < length ms" by (metis drop_all list.distinct(1) not_less)
  then have m: "m = ms ! ?p" and R: "R = drop (Suc ?p) ms"
    using drop by (metis nth_via_drop, metis drop_Suc list.sel(3) tl_drop)
  have len: "?p < length stored" using p bodies by (metis length_map length_take min_less_iff_conj)
  have body: "body m = body ?r" using bodies m p by (metis length_map nth_map nth_take)
  have cursor: "cursor w k = length (List.map_filter (of_kind k) (take ?p stored))" for k
    using w by (simp add: walked_exactly_def)
  have onward: "walked_exactly stored ms (?w'\<lparr>cursor := c\<rparr>) R"
    if "\<And>k. c k = cursor w k + (if of_kind k ?r = None then 0 else 1)" for c
    using that p R cursor len
    by (auto simp: walked_exactly_def take_Suc_conv_app_nth map_filter_append map_filter_simps split: option.split)
  have plain: "walked_exactly stored ms ?w' R" if "kind_and_key m = None"
    using onward [of "cursor w"] that same_body_keys(1) [OF body] by (simp add: of_kind_def)
  show ?thesis
  proof (cases "activity_key m")
    case (Some tc)
    then have "kind_and_key m = None" using activity_no_key by blast
    moreover have "paired_activities ms stored ?p = Some (msg_id ?r)"
      using paired_activities_prefix [OF bodies p] Some m by (cases tc) simp
    ultimately show ?thesis using Some plain by (auto simp: stored_id_def has_key_def)
  next
    case no_act: None
    show ?thesis
    proof (cases "kind_and_key m")
      case None
      with no_act plain show ?thesis by (auto simp: stored_id_def has_key_def)
    next
      case (Some kk)
      obtain kind key where kk: "kk = (kind, key)" by fastforce
      have kind: "of_kind k ?r = (if k = kind then Some (key, msg_id ?r) else None)" for k
        using same_body_keys(1) [OF body, symmetric] Some kk by (simp add: of_kind_def)
      from walked_keyed [of stored ?p kind key "msg_id ?r" "cursor w", OF this len cursor] no_act Some kk
      have "stored_id (rows_of stored) (paired_activities ms stored) w m
          = (Some (msg_id ?r), ?w'\<lparr>cursor := (cursor w)(kind := cursor w kind + 1)\<rparr>)"
        by (simp add: stored_id_def)
      with onward [of "(cursor w)(kind := cursor w kind + 1)"] Some show ?thesis
        by (simp add: has_key_def kind)
    qed
  qed
qed

lemma lend_prefix:
  assumes "walked_exactly stored ms w R" and "map body ms = map body (take (length ms) stored)"
    and "distinct (map msg_id stored)" and "blocked \<inter> msg_id ` set stored = {}"
    and "taken \<inter> msg_id ` set (drop (position w) stored) = {}"
  shows "lend_ids (stored_id (rows_of stored) (paired_activities ms stored)) blocked taken w R
    = map2 (\<lambda>m r. if has_key m then r else m) R (drop (position w) stored)"
  using assms(1,5)
proof (induction R arbitrary: w taken)
  case (Cons m R)
  from walked_exactly_offer [OF Cons.prems(1) assms(2)] obtain w' where
    o: "stored_id (rows_of stored) (paired_activities ms stored) w m
      = (if has_key m then Some (msg_id (stored ! position w)) else None, w')"
    and w': "walked_exactly stored ms w' R" by blast
  have drop: "m # R = drop (position w) ms" "R = drop (position w') ms"
    using Cons.prems(1) w' by (simp_all add: walked_exactly_def)
  then have p: "position w < length ms" by (metis drop_all list.distinct(1) not_less)
  have pos: "position w' = Suc (position w)"
    using o by (cases rule: stored_id_cases) simp_all
  have len: "length ms \<le> length stored"
    using assms(2) by (metis length_map length_take min.absorb_iff1 min.commute)
  let ?r = "stored ! position w"
  have stored: "drop (position w) stored = ?r # drop (position w') stored"
    using p len pos by (simp add: Cons_nth_drop_Suc)
  have fresh: "msg_id ?r \<notin> taken" "msg_id ?r \<notin> blocked"
    using Cons.prems(2) stored assms(4) p len by auto
  have "distinct (map msg_id (drop (position w) stored))"
    using assms(3) by (simp add: drop_map [symmetric])
  then have apart: "msg_id ?r \<notin> msg_id ` set (drop (position w') stored)" using stored by simp
  have "body m = body ?r"
    using assms(2) drop(1) p len by (metis length_map nth_map nth_take nth_via_drop)
  then have copy: "m\<lparr>msg_id := msg_id ?r\<rparr> = ?r" by (intro same_body_and_id [where m = "m\<lparr>msg_id := msg_id ?r\<rparr>"]) simp_all
  show ?case
  proof (cases "has_key m")
    case True
    have "lend_ids (stored_id (rows_of stored) (paired_activities ms stored)) blocked
        (insert (msg_id ?r) taken) w' R
      = map2 (\<lambda>m r. if has_key m then r else m) R (drop (position w') stored)"
      by (rule Cons.IH [OF w']) (use Cons.prems(2) stored apart in auto)
    with o True fresh copy stored show ?thesis by simp
  next
    case False
    have "lend_ids (stored_id (rows_of stored) (paired_activities ms stored)) blocked taken w' R
      = map2 (\<lambda>m r. if has_key m then r else m) R (drop (position w') stored)"
      by (rule Cons.IH [OF w']) (use Cons.prems(2) stored in auto)
    with o False stored show ?thesis by simp
  qed
qed simp


definition stored_row :: "message list" where
  "stored_row =
     [plain_message ''s1'' (UserMsg (PlainText (ustr ''hi''))),
      plain_message ''s2'' (AssistantMsg (Some (ustr ''ok'')) None),
      plain_message ''s3'' (ToolMsg (ustr ''{}'') ''c1''),
      plain_message ''s4'' (AssistantMsg (Some (ustr ''ok'')) None),
      plain_message ''s5'' (ActivityMsg ''compaction'' fmempty),
      plain_message ''s6'' (ReasoningMsg (ustr ''hm''))]"

definition dumped_history :: "message list" where
  "dumped_history = map (\<lambda>m. m\<lparr>msg_id := ''d'' @ msg_id m\<rparr>) (take 5 stored_row)"


lemma lend_stored_ids_stores_no_id_twice_witness:
  "distinct (map msg_id dumped_history)
   \<and> distinct (map msg_id (lend_stored_ids dumped_history stored_row {''s2''}))"
proof -
  have "distinct (map msg_id dumped_history)" by (simp add: dumped_history_def stored_row_def)
  from lend_stored_ids_stores_no_id_twice [OF this, of stored_row "{''s2''}"] this show ?thesis by blast
qed

end
