(* ===== verification/Throttle.thy ===== *)
theory Throttle
  imports Context
begin

text \<open>
  The run limiter: \<open>agent/fixed_window_throttle.py\<close> and \<open>reject_async_throttle.py\<close>. Django's
  cache is a parameter, as its two operations \<open>add\<close> and \<open>incr\<close> on a cache state; what the
  limiter relies on is the predicate \<open>counting_cache\<close>.
\<close>

section \<open>The limiter\<close>

record request_peer =
  peer_user :: "ustr option"
  peer_addr :: "ustr option"

text \<open>\<open>peer_user\<close> is the primary key of an authenticated user.\<close>

definition default_key :: "request_peer \<Rightarrow> ustr" where
  "default_key r =
     (case peer_user r of
        Some pk \<Rightarrow> ustr ''u:'' @ pk
      | None \<Rightarrow> ustr ''ip:'' @ (case peer_addr r of Some a \<Rightarrow> a | None \<Rightarrow> ustr ''unknown''))"

record throttle =
  max_runs :: int
  window :: int
  namespace :: ustr

definition new_throttle :: "int \<Rightarrow> int \<Rightarrow> ustr \<Rightarrow> string + throttle" where
  "new_throttle runs per_seconds ns =
     (if runs \<le> 0 then Inl ''max_runs must be positive''
      else if per_seconds \<le> 0 then Inl ''per_seconds must be positive''
      else Inr \<lparr>max_runs = runs, window = per_seconds, namespace = ns\<rparr>)"

definition cache_key :: "throttle \<Rightarrow> ustr \<Rightarrow> int \<Rightarrow> ustr" where
  "cache_key th key bucket =
     ustr ''django-ag-ui:throttle:'' @ namespace th @ [58] @ key @ [58] @ decimal bucket"

type_synonym 'c cache_add = "ustr \<Rightarrow> nat \<Rightarrow> int \<Rightarrow> int \<Rightarrow> 'c \<Rightarrow> bool \<times> 'c"
type_synonym 'c cache_incr = "ustr \<Rightarrow> int \<Rightarrow> 'c \<Rightarrow> nat option \<times> 'c"

text \<open>\<open>incr\<close> raises \<open>ValueError\<close> for a missing key, which is \<open>None\<close> here.\<close>

definition increment ::
    "'c cache_add \<Rightarrow> 'c cache_incr \<Rightarrow> throttle \<Rightarrow> ustr \<Rightarrow> int \<Rightarrow> 'c \<Rightarrow> nat \<times> 'c" where
  "increment add_key incr_key th k now c =
     (case incr_key k now c of
        (Some n, c') \<Rightarrow> (n, c')
      | (None, c') \<Rightarrow> (1, snd (add_key k 1 (window th) now c')))"

definition consume ::
    "'c cache_add \<Rightarrow> 'c cache_incr \<Rightarrow> throttle \<Rightarrow> ustr \<Rightarrow> int \<Rightarrow> 'c \<Rightarrow> int option \<times> 'c" where
  "consume add_key incr_key th key now c =
     (let bucket = now div window th;
          k = cache_key th key bucket in
      case add_key k 1 (window th) now c of
        (True, c') \<Rightarrow> (None, c')
      | (False, c') \<Rightarrow>
          (case increment add_key incr_key th k now c' of
             (count, c'') \<Rightarrow>
               if int count \<le> max_runs th then (None, c'')
               else (Some (max ((bucket + 1) * window th - now) 1), c'')))"

fun consume_all ::
    "'c cache_add \<Rightarrow> 'c cache_incr \<Rightarrow> throttle \<Rightarrow> (ustr \<times> int) list \<Rightarrow> 'c \<Rightarrow> int option list" where
  "consume_all add_key incr_key th [] c = []"
| "consume_all add_key incr_key th ((key, now) # rs) c =
     (case consume add_key incr_key th key now c of
        (answer, c') \<Rightarrow> answer # consume_all add_key incr_key th rs c')"

text \<open>
  \<open>reject_async_throttle\<close>: whether \<open>consume\<close> is a coroutine function, when there is a limiter.
\<close>

fun reject_async_throttle :: "bool option \<Rightarrow> string \<Rightarrow> string + unit" where
  "reject_async_throttle None allows = Inr ()"
| "reject_async_throttle (Some is_coroutine) allows =
     (if \<not> is_coroutine then Inr ()
      else Inl (''consume is declared async; return None to allow the '' @ allows))"

section \<open>What the limiter relies on\<close>

text \<open>
  \<open>live c t k\<close> is the counter a cache holds under \<open>k\<close> at time \<open>t\<close>, if nothing is written
  meanwhile. A counter that \<open>add\<close> created stays until its timeout, \<open>incr\<close> bumps it without
  touching its expiry, and no other key is touched.
\<close>

definition counting_cache ::
    "('c \<Rightarrow> int \<Rightarrow> ustr \<Rightarrow> nat option) \<Rightarrow> 'c cache_add \<Rightarrow> 'c cache_incr \<Rightarrow> bool" where
  "counting_cache live add_key incr_key \<longleftrightarrow>
     (\<forall>k v s now c. fst (add_key k v s now c) = (live c now k = None))
     \<and> (\<forall>k v s now c t. live c now k = None \<longrightarrow> now \<le> t \<longrightarrow> t < now + s \<longrightarrow>
          live (snd (add_key k v s now c)) t k = Some v)
     \<and> (\<forall>k v s now c t j. now \<le> t \<longrightarrow> live c now k \<noteq> None \<or> j \<noteq> k \<longrightarrow>
          live (snd (add_key k v s now c)) t j = live c t j)
     \<and> (\<forall>k now c. fst (incr_key k now c) = map_option Suc (live c now k))
     \<and> (\<forall>k now c t n. now \<le> t \<longrightarrow> live c now k = Some n \<longrightarrow>
          live (snd (incr_key k now c)) t k = map_option (\<lambda>_. Suc n) (live c t k))
     \<and> (\<forall>k now c t j. now \<le> t \<longrightarrow> live c now k = None \<or> j \<noteq> k \<longrightarrow>
          live (snd (incr_key k now c)) t j = live c t j)"

lemma counting_laws:
  assumes "counting_cache live add_key incr_key"
  shows "fst (add_key k v s now c) = (live c now k = None)"
    and "live c now k = None \<Longrightarrow> now \<le> t \<Longrightarrow> t < now + s \<Longrightarrow>
      live (snd (add_key k v s now c)) t k = Some v"
    and "now \<le> t \<Longrightarrow> live c now k \<noteq> None \<or> j \<noteq> k \<Longrightarrow>
      live (snd (add_key k v s now c)) t j = live c t j"
    and "fst (incr_key k now c) = map_option Suc (live c now k)"
    and "now \<le> t \<Longrightarrow> live c now k = Some n \<Longrightarrow>
      live (snd (incr_key k now c)) t k = map_option (\<lambda>_. Suc n) (live c t k)"
    and "now \<le> t \<Longrightarrow> live c now k = None \<or> j \<noteq> k \<Longrightarrow>
      live (snd (incr_key k now c)) t j = live c t j"
  using assms by (auto simp: counting_cache_def)

section \<open>The bucket is read off the key\<close>

lemma digits_first: "digits n \<noteq> 45 # r"
proof
  assume "digits n = 45 # r"
  then have "45 \<in> set (digits n)" by simp
  from digits_range [OF this] show False by simp
qed

lemma decimal_inj: "decimal a = decimal b \<Longrightarrow> a = b"
  by (auto simp: decimal_def digits_first digits_first [symmetric] dest!: digits_inj split: if_splits)

lemma decimal_no_colon: "58 \<notin> set (decimal b)"
  using digits_range by (fastforce simp: decimal_def split: if_splits)

lemma last_field:
  fixes x d y e :: ustr
  assumes "x @ 58 # d = y @ 58 # e" and "58 \<notin> set d" and "58 \<notin> set e"
  shows "d = e"
proof -
  have field: "takeWhile (\<lambda>c. c \<noteq> 58) (rev (u @ 58 # w)) = rev w" if "58 \<notin> set w" for u w :: ustr
  proof -
    have all: "\<forall>c \<in> set (rev w). c \<noteq> 58" using that by auto
    have "takeWhile (\<lambda>c. c \<noteq> 58) (rev w @ 58 # rev u) = rev w @ takeWhile (\<lambda>c. c \<noteq> 58) (58 # rev u)"
      using all by (intro takeWhile_append2) simp
    then show ?thesis by simp
  qed
  from field [OF assms(2), of x] field [OF assms(3), of y] show ?thesis
    using assms(1) by (metis rev_rev_ident)
qed

lemma cache_key_bucket: "cache_key th k1 b1 = cache_key th k2 b2 \<Longrightarrow> b1 = b2"
proof -
  assume "cache_key th k1 b1 = cache_key th k2 b2"
  then have "(namespace th @ [58] @ k1) @ 58 # decimal b1 = (namespace th @ [58] @ k2) @ 58 # decimal b2"
    by (simp add: cache_key_def)
  from last_field [OF this] show "b1 = b2" by (simp add: decimal_no_colon decimal_inj)
qed

section \<open>At most \<open>max_runs\<close> runs in a window\<close>

definition in_bucket :: "throttle \<Rightarrow> ustr \<Rightarrow> int \<Rightarrow> ustr \<times> int \<Rightarrow> bool" where
  "in_bucket th key bucket r \<longleftrightarrow> fst r = key \<and> snd r div window th = bucket"

definition allowed_in ::
    "throttle \<Rightarrow> ustr \<Rightarrow> int \<Rightarrow> (ustr \<times> int) list \<Rightarrow> int option list \<Rightarrow> nat" where
  "allowed_in th key bucket rs answers =
     length (filter (\<lambda>(r, a). in_bucket th key bucket r \<and> a = None) (zip rs answers))"

text \<open>
  \<open>counted\<close>: after \<open>a\<close> runs were allowed under a key in a bucket, the counter is live until
  the bucket ends and at least \<open>a\<close>; the other buckets' keys are not live or belong to them.
\<close>

definition counted ::
    "('c \<Rightarrow> int \<Rightarrow> ustr \<Rightarrow> nat option) \<Rightarrow> throttle \<Rightarrow> ustr \<Rightarrow> int \<Rightarrow> nat \<Rightarrow> int \<Rightarrow> 'c \<Rightarrow> bool" where
  "counted live th key bucket a now c \<longleftrightarrow>
     (a = 0 \<and> (\<forall>t. now \<le> t \<longrightarrow> live c t (cache_key th key bucket) = None))
     \<or> (\<exists>n. a \<le> n \<and> (\<forall>t. now \<le> t \<and> t < (bucket + 1) * window th \<longrightarrow>
           live c t (cache_key th key bucket) = Some n))"

lemma consume_steps:
  assumes laws: "counting_cache live add_key incr_key" and w: "0 < window th"
    and o: "consume add_key incr_key th key now c = (answer, c')"
  defines "k \<equiv> cache_key th key (now div window th)"
  shows "live c now k = None \<Longrightarrow>
      answer = None \<and> (\<forall>t. now \<le> t \<longrightarrow> t < now + window th \<longrightarrow> live c' t k = Some 1)"
    and "live c now k = Some n \<Longrightarrow>
      answer = (if int (Suc n) \<le> max_runs th then None
                else Some (max ((now div window th + 1) * window th - now) 1))
      \<and> (\<forall>t. now \<le> t \<longrightarrow> live c' t k = map_option (\<lambda>_. Suc n) (live c t k))"
    and "now \<le> t \<Longrightarrow> j \<noteq> k \<Longrightarrow> live c' t j = live c t j"
proof -
  note L = counting_laws [OF laws]
  obtain b c1 where a: "add_key k 1 (window th) now c = (b, c1)" by fastforce
  obtain r c2 where i: "incr_key k now c1 = (r, c2)" by fastforce
  have b: "b = (live c now k = None)" using L(1) [of k 1 "window th" now c] a by simp
  { assume none: "live c now k = None"
    with b o a have "answer = None" "c' = c1" by (simp_all add: consume_def k_def)
    moreover have "now \<le> t \<Longrightarrow> t < now + window th \<Longrightarrow> live c1 t k = Some 1" for t
      using L(2) [OF none, of t "window th" 1] a by simp
    ultimately show "answer = None \<and> (\<forall>t. now \<le> t \<longrightarrow> t < now + window th \<longrightarrow> live c' t k = Some 1)"
      by simp }
  { assume some: "live c now k = Some n"
    have c1: "now \<le> t \<Longrightarrow> live c1 t j = live c t j" for t j
      using L(3) [of now t c k j 1 "window th"] some a by simp
    have r: "r = Some (Suc n)" using L(4) [of k now c1] i c1 [of now k] some by simp
    have step: "c' = c2 \<and> answer = (if int (Suc n) \<le> max_runs th then None
        else Some (max ((now div window th + 1) * window th - now) 1))"
      using o a b some i r by (auto simp: consume_def increment_def k_def Let_def split: if_splits)
    have "now \<le> t \<Longrightarrow> live c2 t k = map_option (\<lambda>_. Suc n) (live c t k)" for t
      using L(5) [of now t c1 k n] i c1 some by simp
    with step show "answer = (if int (Suc n) \<le> max_runs th then None
        else Some (max ((now div window th + 1) * window th - now) 1))
      \<and> (\<forall>t. now \<le> t \<longrightarrow> live c' t k = map_option (\<lambda>_. Suc n) (live c t k))" by simp }
  show "live c' t j = live c t j" if "now \<le> t" "j \<noteq> k"
  proof (cases "live c now k")
    case None
    with b o a have "c' = c1" by (simp add: consume_def k_def)
    with L(3) [of now t c k j 1 "window th"] that a show ?thesis by simp
  next
    case (Some n)
    have c1: "now \<le> t \<Longrightarrow> live c1 t j = live c t j" for t j
      using L(3) [of now t c k j 1 "window th"] Some a by simp
    have r: "r = Some (Suc n)" using L(4) [of k now c1] i c1 [of now k] Some by simp
    have "c' = c2"
      using o a b Some i r by (auto simp: consume_def increment_def k_def Let_def split: if_splits)
    with L(6) [of now t c1 k j] that i c1 show ?thesis by simp
  qed
qed

lemma bucket_bounds:
  assumes "0 < (w :: int)"
  shows "now div w * w \<le> now" and "now < (now div w + 1) * w"
    and "(now div w + 1) * w \<le> now + w"
proof -
  have eq: "now = now div w * w + now mod w" by (simp only: div_mult_mod_eq)
  have rem: "0 \<le> now mod w" "now mod w < w" using assms by simp_all
  have step: "(now div w + 1) * w = now div w * w + w" by (simp add: distrib_right)
  show "now div w * w \<le> now" "now < (now div w + 1) * w" "(now div w + 1) * w \<le> now + w"
    using eq rem unfolding step by linarith+
qed

lemma consume_counted:
  assumes laws: "counting_cache live add_key incr_key" and w: "0 < window th" and m: "0 < max_runs th"
    and o: "consume add_key incr_key th key now c = (answer, c')"
    and inv: "counted live th K B a now c" and bound: "int a \<le> max_runs th"
  shows "\<exists>a'. counted live th K B a' now c' \<and> int a' \<le> max_runs th
    \<and> a + (if in_bucket th K B (key, now) \<and> answer = None then 1 else 0) \<le> a'"
proof -
  note steps = consume_steps [OF laws w o]
  let ?k = "cache_key th key (now div window th)" and ?K = "cache_key th K B"
  show ?thesis
  proof (cases "?k = ?K")
    case False
    then have "\<not> in_bucket th K B (key, now)" by (auto simp: in_bucket_def)
    moreover have "counted live th K B a now c'"
      using inv steps(3) [of _ ?K] False unfolding counted_def by metis
    ultimately show ?thesis using bound by (intro exI [of _ a]) simp
  next
    case True
    then have B: "now div window th = B" by (rule cache_key_bucket)
    have last: "now < (B + 1) * window th" "(B + 1) * window th \<le> now + window th"
      using bucket_bounds [OF w, of now] B by simp_all
    show ?thesis
    proof (cases "live c now ?k")
      case None
      with inv last True have "a = 0" unfolding counted_def by auto
      moreover have "counted live th K B 1 now c'"
        using steps(1) [OF None] last True unfolding counted_def by (intro disjI2 exI [of _ 1]) auto
      ultimately show ?thesis using m by (intro exI [of _ 1]) simp
    next
      case (Some n)
      with inv True obtain n' where n': "a \<le> n'"
          "\<forall>t. now \<le> t \<and> t < (B + 1) * window th \<longrightarrow> live c t ?K = Some n'"
        unfolding counted_def by auto
      with last Some True have n: "n' = n" by force
      have live': "\<forall>t. now \<le> t \<and> t < (B + 1) * window th \<longrightarrow> live c' t ?K = Some (Suc n)"
        using steps(2) [OF Some] n' n True by auto
      show ?thesis
      proof (cases "int (Suc n) \<le> max_runs th")
        case True
        with live' n' n show ?thesis
          by (intro exI [of _ "Suc a"]) (auto simp: counted_def)
      next
        case False
        with steps(2) [OF Some] have "answer \<noteq> None" by simp
        with live' n' n bound show ?thesis
          by (intro exI [of _ a]) (auto simp: counted_def intro!: exI [of _ "Suc n"])
      qed
    qed
  qed
qed

lemma counted_later: "counted live th K B a now c \<Longrightarrow> now \<le> later \<Longrightarrow> counted live th K B a later c"
  unfolding counted_def by (meson order_trans)

lemma consume_all_counted:
  assumes "counting_cache live add_key incr_key" and "0 < window th" and "0 < max_runs th"
  shows "sorted (map snd rs) \<Longrightarrow> counted live th K B a now c \<Longrightarrow> list_all (\<lambda>r. now \<le> snd r) rs \<Longrightarrow>
    int a \<le> max_runs th \<Longrightarrow>
    int (a + allowed_in th K B rs (consume_all add_key incr_key th rs c)) \<le> max_runs th"
proof (induction rs arbitrary: a now c)
  case (Cons r rs)
  obtain key t where r: "r = (key, t)" by fastforce
  obtain answer c' where o: "consume add_key incr_key th key t c = (answer, c')" by fastforce
  have "counted live th K B a t c" using Cons.prems(2,3) r by (auto intro: counted_later)
  from consume_counted [OF assms o this Cons.prems(4)] obtain a' where a':
    "counted live th K B a' t c'" "int a' \<le> max_runs th"
    "a + (if in_bucket th K B (key, t) \<and> answer = None then 1 else 0) \<le> a'" by blast
  have "sorted (map snd rs)" "list_all (\<lambda>r. t \<le> snd r) rs"
    using Cons.prems(1) r by (auto simp: list_all_iff)
  from Cons.IH [OF this(1) a'(1) this(2) a'(2)] a'(3) show ?case
    using r o by (cases "in_bucket th K B (key, t) \<and> answer = None") (auto simp: allowed_in_def)
qed (simp add: allowed_in_def)

text \<open>
  C14. The limiter holds: on a shared cache that keeps a counter until its timeout, however many
  requests arrive in however many windows, at most \<open>max_runs\<close> of those made under one key in
  one window are allowed, because the counter cannot expire before its window ends.
\<close>

theorem throttle_limits_each_window:
  assumes "counting_cache live add_key incr_key" and "new_throttle runs per_seconds ns = Inr th"
    and "\<forall>t k. live c t k = None" and "sorted (map snd rs)"
  shows "int (allowed_in th key bucket rs (consume_all add_key incr_key th rs c)) \<le> max_runs th"
proof (cases rs)
  case Nil
  then show ?thesis using assms(2) by (auto simp: allowed_in_def new_throttle_def split: if_splits)
next
  case (Cons r rs')
  have th: "0 < window th" "0 < max_runs th"
    using assms(2) by (auto simp: new_throttle_def split: if_splits)
  have "list_all (\<lambda>q. snd r \<le> snd q) rs" using assms(4) Cons by (auto simp: list_all_iff)
  moreover have "counted live th key bucket 0 (snd r) c" using assms(3) by (simp add: counted_def)
  ultimately show ?thesis
    using consume_all_counted [OF assms(1) th assms(4), of key bucket 0 "snd r" c] th by simp
qed

text \<open>
  A refused run is told when to retry: the answer is exactly the time left to the next
  window, at least one second and at most a whole window, and every run of a client with no
  counter in the window is allowed.
\<close>

theorem retry_after_is_the_rest_of_the_window:
  assumes "new_throttle runs per_seconds ns = Inr th"
    and "consume add_key incr_key th key now c = (answer, c')"
  shows "(case answer of
            Some s \<Rightarrow> s = (now div window th + 1) * window th - now \<and> 1 \<le> s \<and> s \<le> window th
          | None \<Rightarrow> True)
    \<and> (fst (add_key (cache_key th key (now div window th)) 1 (window th) now c) \<longrightarrow> answer = None)"
proof -
  have w: "0 < window th" using assms(1) by (auto simp: new_throttle_def split: if_splits)
  show ?thesis
    using bucket_bounds [OF w, of now] assms(2)
    by (auto simp: consume_def Let_def split: prod.splits bool.splits if_splits)
qed

text \<open>Both apply to a cache that maps each key to its counter and expiry.\<close>

definition timed_live :: "(ustr \<rightharpoonup> nat \<times> int) \<Rightarrow> int \<Rightarrow> ustr \<Rightarrow> nat option" where
  "timed_live c t k =
     (case c k of Some (n, expiry) \<Rightarrow> if t < expiry then Some n else None | None \<Rightarrow> None)"

definition timed_add :: "(ustr \<rightharpoonup> nat \<times> int) cache_add" where
  "timed_add k v s now c =
     (if timed_live c now k = None then (True, c(k \<mapsto> (v, now + s))) else (False, c))"

definition timed_incr :: "(ustr \<rightharpoonup> nat \<times> int) cache_incr" where
  "timed_incr k now c =
     (case timed_live c now k of
        None \<Rightarrow> (None, c)
      | Some n \<Rightarrow> (Some (Suc n), c(k \<mapsto> (Suc n, snd (the (c k))))))"

lemma timed_counting: "counting_cache timed_live timed_add timed_incr"
  by (auto simp: counting_cache_def timed_live_def timed_add_def timed_incr_def
      split: option.splits if_splits prod.splits)

definition two_a_minute :: throttle where
  "two_a_minute = \<lparr>max_runs = 2, window = 60, namespace = ustr ''runs''\<rparr>"

lemma throttle_limits_each_window_witness:
  "allowed_in two_a_minute (ustr ''u:1'') 1 [(ustr ''u:1'', 60), (ustr ''u:1'', 61), (ustr ''u:1'', 90)]
     (consume_all timed_add timed_incr two_a_minute
        [(ustr ''u:1'', 60), (ustr ''u:1'', 61), (ustr ''u:1'', 90)] Map.empty) \<le> 2"
proof -
  have "new_throttle 2 60 (ustr ''runs'') = Inr two_a_minute"
    by (simp add: new_throttle_def two_a_minute_def)
  from throttle_limits_each_window [OF timed_counting this, where c = Map.empty and
      rs = "[(ustr ''u:1'', 60), (ustr ''u:1'', 61), (ustr ''u:1'', 90)]" and bucket = 1 and key = "ustr ''u:1''"]
  show ?thesis by (simp add: timed_live_def two_a_minute_def)
qed

lemma retry_after_is_the_rest_of_the_window_witness:
  "fst (consume timed_add timed_incr two_a_minute (ustr ''u:1'') 90
     [cache_key two_a_minute (ustr ''u:1'') 1 \<mapsto> (2, 120)]) = Some 30"
proof -
  obtain a c' where o: "consume timed_add timed_incr two_a_minute (ustr ''u:1'') 90
      [cache_key two_a_minute (ustr ''u:1'') 1 \<mapsto> (2, 120)] = (a, c')" by fastforce
  have "new_throttle 2 60 (ustr ''runs'') = Inr two_a_minute"
    by (simp add: new_throttle_def two_a_minute_def)
  note rest = retry_after_is_the_rest_of_the_window [OF this o]
  have "a \<noteq> None"
    using o by (auto simp: consume_def increment_def timed_add_def timed_incr_def timed_live_def
        two_a_minute_def Let_def)
  with rest o show ?thesis by (auto simp: two_a_minute_def)
qed

end
