(* ===== verification/ContinuedHistory.thy ===== *)
theory ContinuedHistory
  imports Outcome
begin

text \<open>
  \<open>agent/continued_history.py\<close>: the part of a snapshot's history a server-held run keeps, and
  the client's new turn as it is stored. Pydantic-ai's \<open>load_messages\<close>, \<open>dump_messages\<close> and
  \<open>pending_tool_calls\<close> are parameters: \<open>loads m\<close> is what one posted message loads into,
  \<open>dumps m\<close> the messages one model message dumps to, \<open>pending h\<close> the ids of the calls still
  waiting in a history.
\<close>

fun is_response :: "model_message \<Rightarrow> bool" where
  "is_response (ModelResponse _) = True"
| "is_response (ModelRequest _) = False"

text \<open>The index of the last posted message that loads into a model response, plus one.\<close>

fun after_last_response :: "(message \<Rightarrow> model_message list) \<Rightarrow> message list \<Rightarrow> nat \<Rightarrow> nat" where
  "after_last_response loads posted 0 = 0"
| "after_last_response loads posted (Suc index) =
     (let m = posted ! index in
      if is_tool_message m then after_last_response loads posted index
      else if list_ex is_response (loads m) then index + 1
      else after_last_response loads posted index)"

definition called_ids :: "message list \<Rightarrow> string set" where
  "called_ids posted =
     set (concat (map (\<lambda>m. case payload m of
       AssistantMsg _ calls \<Rightarrow> map call_id (calls_of calls) | _ \<Rightarrow> []) posted))"

fun turn_id_of ::
    "(message \<Rightarrow> model_message list) \<Rightarrow> string set \<Rightarrow> string set \<Rightarrow> message list \<Rightarrow> string option"
where
  "turn_id_of loads called pending [] = None"
| "turn_id_of loads called pending (m # earlier) =
     (case payload m of
        ToolMsg _ call \<Rightarrow>
          if call \<in> called \<or> call \<in> pending then Some (msg_id m)
          else turn_id_of loads called pending earlier
      | _ \<Rightarrow>
          if loads m \<noteq> [] then Some (msg_id m)
          else turn_id_of loads called pending earlier)"

definition turn_id ::
    "(message \<Rightarrow> model_message list) \<Rightarrow> (model_message list \<Rightarrow> string list) \<Rightarrow>
     message list \<Rightarrow> message list \<Rightarrow> model_message list \<Rightarrow> string option" where
  "turn_id loads pending new_turn posted history =
     turn_id_of loads (called_ids posted) (set (pending history)) (rev new_turn)"

fun is_user_prompt :: "model_part \<Rightarrow> bool" where
  "is_user_prompt UserPrompt = True"
| "is_user_prompt _ = False"

text \<open>
  \<open>_names\<close>: a dump without any message would raise on the index \<open>-1\<close>, which is \<open>None\<close> here
  and never happens for a request with a user prompt.
\<close>

definition names_turn :: "(model_message \<Rightarrow> message list) \<Rightarrow> string \<Rightarrow> model_message \<Rightarrow> bool" where
  "names_turn dumps turn m =
     (if is_response m then False
      else if \<not> list_ex is_user_prompt (parts m) then False
      else (case rev (dumps m) of [] \<Rightarrow> False | last_dumped # _ \<Rightarrow> msg_id last_dumped = turn))"

fun tool_result_call :: "model_part \<Rightarrow> string option" where
  "tool_result_call (ToolReturn call _) = Some call"
| "tool_result_call (RetryPrompt (Some _) call) = Some call"
| "tool_result_call _ = None"

definition is_tool_result :: "model_part \<Rightarrow> bool" where
  "is_tool_result p \<longleftrightarrow> tool_result_call p \<noteq> None"

definition cut_history :: "model_message list \<Rightarrow> nat option \<Rightarrow> model_message list" where
  "cut_history history cut_at =
     (case cut_at of
        None \<Rightarrow> history
      | Some n \<Rightarrow>
          (let results = filter is_tool_result (parts (history ! n)) in
           take n history @ (if results = [] then [] else [ModelRequest results])))"

definition answered_calls :: "model_message list \<Rightarrow> string set" where
  "answered_calls kept =
     set (concat (map (\<lambda>m. List.map_filter tool_result_call (parts m))
       (filter (\<lambda>m. \<not> is_response m) kept)))"

definition resubmitted :: "string set \<Rightarrow> message \<Rightarrow> bool" where
  "resubmitted answered m \<longleftrightarrow>
     (case payload m of ToolMsg _ call \<Rightarrow> call \<notin> answered | _ \<Rightarrow> True)"

definition new_turn_of :: "(message \<Rightarrow> model_message list) \<Rightarrow> message list \<Rightarrow> message list" where
  "new_turn_of loads posted = drop (after_last_response loads posted (length posted)) posted"

definition continued_history ::
    "(message \<Rightarrow> model_message list) \<Rightarrow> (model_message \<Rightarrow> message list) \<Rightarrow>
     (model_message list \<Rightarrow> string list) \<Rightarrow> model_message list \<Rightarrow> message list \<Rightarrow>
     model_message list \<times> message list" where
  "continued_history loads dumps pending history posted =
     (let new_turn = new_turn_of loads posted;
          cut_at = (case turn_id loads pending new_turn posted history of
                   None \<Rightarrow> None
                 | Some turn \<Rightarrow> find_index (names_turn dumps turn) history);
          kept = cut_history history cut_at
      in (kept, filter (resubmitted (answered_calls kept)) new_turn))"

section \<open>The new turn\<close>

lemma after_last_response_le: "after_last_response loads posted n \<le> n"
  by (induction loads posted n rule: after_last_response.induct)
     (auto simp: Let_def le_Suc_eq simp del: is_tool_message.simps)

lemma after_last_response_spec:
  "n \<le> length posted \<Longrightarrow>
     (\<forall>i. after_last_response loads posted n \<le> i \<longrightarrow> i < n \<longrightarrow>
        is_tool_message (posted ! i) \<or> \<not> list_ex is_response (loads (posted ! i)))
     \<and> (0 < after_last_response loads posted n \<longrightarrow>
          list_ex is_response (loads (posted ! (after_last_response loads posted n - 1))))"
proof (induction loads posted n rule: after_last_response.induct)
  case (2 loads posted index)
  then show ?case
    by (auto simp: Let_def less_Suc_eq simp del: is_tool_message.simps)
qed simp

lemma find_index_first:
  "find_index p xs = Some i \<Longrightarrow> list_all (\<lambda>x. \<not> p x) (take i xs) \<and> p (xs ! i) \<and> i < length xs"
  using find_index_SomeD [of p xs i] by (simp add: list_all_iff)

text \<open>
  The new turn is the tail of what the client posted: nothing in it but tool results loads
  into a model response, it starts right after a message that does (or is everything posted),
  and what is stored of it is the posted messages in their order, less the tool results whose
  call the kept history already answers; so no call is stored answered twice.
\<close>

theorem new_turn_is_posted_tail:
  "\<exists>older. posted = older @ new_turn_of loads posted
     \<and> (older = [] \<or> list_ex is_response (loads (last older)))
     \<and> filter (\<lambda>m. \<not> is_tool_message m \<and> list_ex is_response (loads m)) (new_turn_of loads posted) = []
     \<and> subseq (snd (continued_history loads dumps pending history posted)) (new_turn_of loads posted)
     \<and> filter (\<lambda>m. \<not> is_tool_message m) (snd (continued_history loads dumps pending history posted))
         = filter (\<lambda>m. \<not> is_tool_message m) (new_turn_of loads posted)
     \<and> list_all (\<lambda>m. case payload m of
           ToolMsg _ call \<Rightarrow>
             call \<notin> answered_calls (fst (continued_history loads dumps pending history posted))
         | _ \<Rightarrow> True)
         (snd (continued_history loads dumps pending history posted))"
proof -
  define n where "n = after_last_response loads posted (length posted)"
  have le: "n \<le> length posted" unfolding n_def by (rule after_last_response_le)
  have turn: "new_turn_of loads posted = drop n posted" by (simp add: new_turn_of_def n_def)
  have "list_all (\<lambda>m. is_tool_message m \<or> \<not> list_ex is_response (loads m)) (drop n posted)"
    using after_last_response_spec [of "length posted" posted loads] le
    unfolding n_def [symmetric]
    by (auto simp: list_all_length simp del: is_tool_message.simps)
  then have tail: "filter (\<lambda>m. \<not> is_tool_message m \<and> list_ex is_response (loads m)) (drop n posted) = []"
    by (auto simp: list_all_iff filter_empty_conv simp del: is_tool_message.simps)
  have head: "take n posted = [] \<or> list_ex is_response (loads (last (take n posted)))"
    using after_last_response_spec [of "length posted" posted loads] le
    unfolding n_def [symmetric]
    by (cases n) (auto simp: take_Suc_conv_app_nth)
  obtain kept where out: "fst (continued_history loads dumps pending history posted) = kept"
      "snd (continued_history loads dumps pending history posted)
        = filter (resubmitted (answered_calls kept)) (drop n posted)"
    by (simp add: continued_history_def turn Let_def)
  have "filter (\<lambda>m. \<not> is_tool_message m) (filter (resubmitted A) ms) = filter (\<lambda>m. \<not> is_tool_message m) ms"
    for A ms
    by (induction ms) (auto simp: resubmitted_def split: payload.splits)
  with tail head show ?thesis
    unfolding turn out
    by (intro exI [of _ "take n posted"])
       (simp add: list_all_iff resubmitted_def del: is_tool_message.simps)
qed


end
