(* ===== verification/Lockstep.thy ===== *)
theory Lockstep
  imports Wire "HOL-Library.Multiset"
begin

text \<open>
  The race \<open>inject_subagent_events\<close> runs between the upstream events, moved by
  \<open>pump_in_lockstep\<close> (\<open>agent/utils.py\<close>), and the queue a delegation's progress is announced
  onto, as an interleaving of four parties: the announcing tools, the pump task, the task that
  waits on the progress queue (\<open>next_progress\<close>), and the generator itself.

  Asyncio is cooperative and runs its callbacks in order. The generator's code between two of
  its suspension points is one step; its phase says at which suspension point it is. While it
  waits in \<open>asyncio.wait\<close> an announcement wakes the waiting task before anything later can
  wake the generator (\<open>announce_handed\<close>), unless the generator was already woken by an event
  that was produced before (\<open>announce_late\<close>). While it is suspended at a \<open>yield\<close> the
  announcement is queued and the woken task may take it before the generator resumes
  (\<open>getter_take\<close>). Nothing is announced once upstream has ended. The fields \<open>announced\<close>,
  \<open>produced\<close>, \<open>due\<close> and \<open>out\<close> record what happened.
\<close>

section \<open>States\<close>

datatype 'a waiting_task = Unscheduled | Waiting | Got 'a

datatype item = Event event | StreamEnd | Failure string

datatype pump_phase = Producing | Joining | PumpDone

datatype gen_phase = Top | Selecting | YieldedQueued | YieldedGot | YieldedEvent | Returned | Raised string

datatype frame = ProgressFrame event | EventFrame event

record race =
  script :: "event list"
  failure :: "string option"
  pump :: pump_phase
  slot :: "item option"
  progress :: "event list"
  getter :: "event waiting_task"
  gen :: gen_phase
  ended :: bool
  out :: "frame list"
  announced :: "event list"
  produced :: "event list"
  due :: nat

definition start :: "event list \<Rightarrow> string option \<Rightarrow> race" where
  "start es fail =
     \<lparr>script = es, failure = fail, pump = Producing, slot = None, progress = [],
      getter = Unscheduled, gen = Top, ended = False, out = [], announced = [], produced = [],
      due = 0\<rparr>"

section \<open>Steps\<close>

definition announce :: "event \<Rightarrow> race \<Rightarrow> race" where
  "announce p c = c\<lparr>progress := progress c @ [p], announced := announced c @ [p]\<rparr>"

text \<open>
  The flag \<open>calm\<close> restricts the announcements to the moments when no task is waiting on the
  queue behind the generator's back: it is off for the code as it is.
\<close>

inductive step :: "bool \<Rightarrow> race \<Rightarrow> race \<Rightarrow> bool" for calm where
  announce_handed:
    "pump c \<noteq> PumpDone \<Longrightarrow> gen c = Selecting \<Longrightarrow> getter c = Waiting \<Longrightarrow> progress c = [] \<Longrightarrow>
     step calm c (c\<lparr>getter := Got p, announced := announced c @ [p]\<rparr>)"
| announce_late:
    "pump c \<noteq> PumpDone \<Longrightarrow> gen c = Selecting \<Longrightarrow> getter c = Waiting \<Longrightarrow> slot c \<noteq> None \<Longrightarrow> \<not> calm \<Longrightarrow>
     step calm c (announce p c)"
| announce_queued:
    "pump c \<noteq> PumpDone \<Longrightarrow> (gen c \<noteq> Selecting \<or> getter c \<noteq> Waiting) \<Longrightarrow>
     (calm \<Longrightarrow> getter c \<noteq> Waiting) \<Longrightarrow>
     step calm c (announce p c)"
| getter_take:
    "gen c \<in> {Selecting, YieldedQueued, YieldedGot, YieldedEvent} \<Longrightarrow> getter c = Waiting \<Longrightarrow>
     progress c = p # ps \<Longrightarrow>
     step calm c (c\<lparr>getter := Got p, progress := ps\<rparr>)"
| pump_item:
    "pump c = Producing \<Longrightarrow> script c = e # es \<Longrightarrow>
     step calm c (c\<lparr>script := es, slot := Some (Event e), pump := Joining,
       produced := produced c @ [e], due := length (announced c)\<rparr>)"
| pump_end:
    "pump c = Producing \<Longrightarrow> script c = [] \<Longrightarrow> failure c = None \<Longrightarrow>
     step calm c (c\<lparr>slot := Some StreamEnd, pump := PumpDone\<rparr>)"
| pump_fail:
    "pump c = Producing \<Longrightarrow> script c = [] \<Longrightarrow> failure c = Some err \<Longrightarrow>
     step calm c (c\<lparr>slot := Some (Failure err), pump := PumpDone\<rparr>)"
| drain:
    "gen c = Top \<Longrightarrow> progress c = p # ps \<Longrightarrow>
     step calm c (c\<lparr>progress := ps, out := out c @ [ProgressFrame p], gen := YieldedQueued\<rparr>)"
| finish:
    "gen c = Top \<Longrightarrow> progress c = [] \<Longrightarrow> ended c \<Longrightarrow>
     step calm c (c\<lparr>gen := Returned\<rparr>)"
| select_step:
    "gen c = Top \<Longrightarrow> progress c = [] \<Longrightarrow> \<not> ended c \<Longrightarrow>
     step calm c (c\<lparr>gen := Selecting,
       getter := (if getter c = Unscheduled then Waiting else getter c)\<rparr>)"
| take_progress:
    "gen c = Selecting \<Longrightarrow> getter c = Got p \<Longrightarrow>
     step calm c (c\<lparr>getter := Unscheduled, out := out c @ [ProgressFrame p], gen := YieldedGot\<rparr>)"
| take_event:
    "gen c = Selecting \<Longrightarrow> getter c = Waiting \<Longrightarrow> slot c = Some (Event e) \<Longrightarrow>
     step calm c (c\<lparr>slot := None, out := out c @ [EventFrame e], gen := YieldedEvent\<rparr>)"
| take_end:
    "gen c = Selecting \<Longrightarrow> getter c = Waiting \<Longrightarrow> slot c = Some StreamEnd \<Longrightarrow>
     step calm c (c\<lparr>slot := None, ended := True, gen := Top\<rparr>)"
| take_failure:
    "gen c = Selecting \<Longrightarrow> getter c = Waiting \<Longrightarrow> slot c = Some (Failure err) \<Longrightarrow>
     step calm c (c\<lparr>slot := None, gen := Raised err\<rparr>)"
| resume_progress:
    "gen c \<in> {YieldedQueued, YieldedGot} \<Longrightarrow> step calm c (c\<lparr>gen := Top\<rparr>)"
| resume_event:
    "gen c = YieldedEvent \<Longrightarrow> step calm c (c\<lparr>gen := Top, pump := Producing\<rparr>)"

inductive reachable :: "bool \<Rightarrow> event list \<Rightarrow> string option \<Rightarrow> race \<Rightarrow> bool" for calm es fail where
  reach_start: "reachable calm es fail (start es fail)"
| reach_step: "reachable calm es fail c \<Longrightarrow> step calm c c' \<Longrightarrow> reachable calm es fail c'"

section \<open>What went out\<close>

fun progress_of :: "frame \<Rightarrow> event option" where
  "progress_of (ProgressFrame p) = Some p"
| "progress_of (EventFrame _) = None"

fun event_of :: "frame \<Rightarrow> event option" where
  "event_of (EventFrame e) = Some e"
| "event_of (ProgressFrame _) = None"

definition progress_out :: "race \<Rightarrow> event list" where
  "progress_out c = List.map_filter progress_of (out c)"

definition events_out :: "race \<Rightarrow> event list" where
  "events_out c = List.map_filter event_of (out c)"

definition held :: "race \<Rightarrow> event list" where
  "held c = (case getter c of Got p \<Rightarrow> [p] | _ \<Rightarrow> [])"

definition in_slot :: "race \<Rightarrow> event list" where
  "in_slot c = (case slot c of Some (Event e) \<Rightarrow> [e] | _ \<Rightarrow> [])"

text \<open>The invariant of every reachable state.\<close>

definition race_ok :: "event list \<Rightarrow> race \<Rightarrow> bool" where
  "race_ok es c \<longleftrightarrow>
     es = produced c @ script c
     \<and> produced c = events_out c @ in_slot c
     \<and> mset (announced c) = mset (progress_out c) + mset (held c) + mset (progress c)
     \<and> due c \<le> length (announced c)
     \<and> (pump c = Producing \<longrightarrow> slot c = None \<and> gen c \<noteq> YieldedEvent \<and> \<not> ended c)
     \<and> (pump c = Joining \<longrightarrow> in_slot c \<noteq> [] \<and> gen c \<noteq> YieldedEvent \<or> slot c = None \<and> gen c = YieldedEvent)
     \<and> (gen c = YieldedEvent \<longrightarrow> pump c = Joining)
     \<and> (pump c = PumpDone \<longrightarrow> script c = [] \<and> in_slot c = [])
     \<and> (ended c \<longrightarrow> pump c = PumpDone \<and> slot c = None \<and> progress c = [] \<and> held c = [] \<and> gen c \<in> {Top, Returned})
     \<and> (gen c = Returned \<longrightarrow> ended c)
     \<and> (gen c = Selecting \<longrightarrow> getter c \<noteq> Unscheduled)
     \<and> (gen c = Selecting \<and> getter c = Waiting \<longrightarrow>
          suffix (progress c) (announced c) \<and> due c \<le> length (announced c) - length (progress c)
          \<and> (in_slot c = [] \<longrightarrow> progress c = []))"

lemma race_ok_start: "race_ok es (start es fail)"
  by (simp add: race_ok_def start_def events_out_def progress_out_def held_def in_slot_def map_filter_simps)

lemmas race_views = events_out_def progress_out_def held_def in_slot_def announce_def map_filter_simps

lemma map_filter_snoc:
  "List.map_filter f (xs @ [x]) = List.map_filter f xs @ (case f x of None \<Rightarrow> [] | Some y \<Rightarrow> [y])"
  by (induction xs) (auto simp: map_filter_simps split: option.split)

lemma race_okD:
  assumes "race_ok es c"
  shows "es = produced c @ script c" "produced c = events_out c @ in_slot c"
    "mset (announced c) = mset (progress_out c) + mset (held c) + mset (progress c)"
    "due c \<le> length (announced c)"
    "pump c = Producing \<Longrightarrow> slot c = None \<and> gen c \<noteq> YieldedEvent \<and> \<not> ended c"
    "pump c = Joining \<Longrightarrow> in_slot c \<noteq> [] \<and> gen c \<noteq> YieldedEvent \<or> slot c = None \<and> gen c = YieldedEvent"
    "gen c = YieldedEvent \<Longrightarrow> pump c = Joining"
    "pump c = PumpDone \<Longrightarrow> script c = [] \<and> in_slot c = []"
    "ended c \<Longrightarrow> pump c = PumpDone \<and> slot c = None \<and> progress c = [] \<and> held c = [] \<and> gen c \<in> {Top, Returned}"
    "gen c = Returned \<Longrightarrow> ended c"
    "gen c = Selecting \<Longrightarrow> getter c \<noteq> Unscheduled"
    "gen c = Selecting \<Longrightarrow> getter c = Waiting \<Longrightarrow>
        suffix (progress c) (announced c) \<and> due c \<le> length (announced c) - length (progress c)
        \<and> (in_slot c = [] \<longrightarrow> progress c = [])"
  using assms unfolding race_ok_def by blast+

text \<open>Each rule preserves the invariant.\<close>

lemma ok_announce_handed: "race_ok es0 c \<Longrightarrow> pump c \<noteq> PumpDone \<Longrightarrow> gen c = Selecting \<Longrightarrow> getter c = Waiting \<Longrightarrow> progress c = [] \<Longrightarrow> race_ok es0 (c\<lparr>getter := Got p, announced := announced c @ [p]\<rparr>)"
  by (simp add: race_ok_def race_views map_filter_snoc; elim conjE; simp add: suffix_def; (elim exE conjE)?; simp?; (fastforce|auto))

lemma ok_announce_late: "race_ok es0 c \<Longrightarrow> pump c \<noteq> PumpDone \<Longrightarrow> gen c = Selecting \<Longrightarrow> getter c = Waiting \<Longrightarrow> slot c \<noteq> None \<Longrightarrow> \<not> calm \<Longrightarrow> race_ok es0 (announce p c)"
  by (cases "pump c"; simp add: race_ok_def race_views; elim conjE disjE; (fastforce simp: suffix_def split: option.splits item.splits)?)

lemma ok_announce_queued: "race_ok es0 c \<Longrightarrow> pump c \<noteq> PumpDone \<Longrightarrow> (gen c \<noteq> Selecting \<or> getter c \<noteq> Waiting) \<Longrightarrow>
     (calm \<Longrightarrow> getter c \<noteq> Waiting) \<Longrightarrow> race_ok es0 (announce p c)"
  by (simp add: race_ok_def race_views map_filter_snoc; elim conjE; simp add: suffix_def; (elim exE conjE)?; simp?; (fastforce|auto))

lemma ok_getter_take: "race_ok es0 c \<Longrightarrow> gen c \<in> {Selecting, YieldedQueued, YieldedGot, YieldedEvent} \<Longrightarrow> getter c = Waiting \<Longrightarrow>
     progress c = p # ps \<Longrightarrow> race_ok es0 (c\<lparr>getter := Got p, progress := ps\<rparr>)"
  by (simp add: race_ok_def race_views map_filter_snoc; elim conjE; simp add: suffix_def; (elim exE conjE)?; simp?; (fastforce|auto))

lemma ok_pump_item: "race_ok es0 c \<Longrightarrow> pump c = Producing \<Longrightarrow> script c = e # es \<Longrightarrow> race_ok es0 (c\<lparr>script := es, slot := Some (Event e), pump := Joining,
       produced := produced c @ [e], due := length (announced c)\<rparr>)"
  by (simp add: race_ok_def race_views map_filter_snoc; elim conjE; simp add: suffix_def; (elim exE conjE)?; simp?; (fastforce|auto))

lemma ok_pump_end: "race_ok es0 c \<Longrightarrow> pump c = Producing \<Longrightarrow> script c = [] \<Longrightarrow> failure c = None \<Longrightarrow> race_ok es0 (c\<lparr>slot := Some StreamEnd, pump := PumpDone\<rparr>)"
  by (simp add: race_ok_def race_views map_filter_snoc; elim conjE; simp add: suffix_def; (elim exE conjE)?; simp?; (fastforce|auto))

lemma ok_pump_fail: "race_ok es0 c \<Longrightarrow> pump c = Producing \<Longrightarrow> script c = [] \<Longrightarrow> failure c = Some err \<Longrightarrow> race_ok es0 (c\<lparr>slot := Some (Failure err), pump := PumpDone\<rparr>)"
  by (simp add: race_ok_def race_views map_filter_snoc; elim conjE; simp add: suffix_def; (elim exE conjE)?; simp?; (fastforce|auto))

lemma ok_drain: "race_ok es0 c \<Longrightarrow> gen c = Top \<Longrightarrow> progress c = p # ps \<Longrightarrow> race_ok es0 (c\<lparr>progress := ps, out := out c @ [ProgressFrame p], gen := YieldedQueued\<rparr>)"
  by (simp add: race_ok_def race_views map_filter_snoc; elim conjE; simp add: suffix_def; (elim exE conjE)?; simp?; (fastforce|auto))

lemma ok_finish: "race_ok es0 c \<Longrightarrow> gen c = Top \<Longrightarrow> progress c = [] \<Longrightarrow> ended c \<Longrightarrow> race_ok es0 (c\<lparr>gen := Returned\<rparr>)"
  by (simp add: race_ok_def race_views map_filter_snoc; elim conjE; simp add: suffix_def; (elim exE conjE)?; simp?; (fastforce|auto))

lemma ok_select_step: "race_ok es0 c \<Longrightarrow> gen c = Top \<Longrightarrow> progress c = [] \<Longrightarrow> \<not> ended c \<Longrightarrow> race_ok es0 (c\<lparr>gen := Selecting,
       getter := (if getter c = Unscheduled then Waiting else getter c)\<rparr>)"
  by (simp add: race_ok_def race_views map_filter_snoc; elim conjE; simp add: suffix_def; (elim exE conjE)?; simp?; (fastforce|auto))

lemma ok_take_progress: "race_ok es0 c \<Longrightarrow> gen c = Selecting \<Longrightarrow> getter c = Got p \<Longrightarrow> race_ok es0 (c\<lparr>getter := Unscheduled, out := out c @ [ProgressFrame p], gen := YieldedGot\<rparr>)"
  by (simp add: race_ok_def race_views map_filter_snoc; elim conjE; simp add: suffix_def; (elim exE conjE)?; simp?; (fastforce|auto))

lemma ok_take_event: "race_ok es0 c \<Longrightarrow> gen c = Selecting \<Longrightarrow> getter c = Waiting \<Longrightarrow> slot c = Some (Event e) \<Longrightarrow> race_ok es0 (c\<lparr>slot := None, out := out c @ [EventFrame e], gen := YieldedEvent\<rparr>)"
  by (cases "pump c"; simp add: race_ok_def race_views map_filter_snoc; elim conjE; simp)

lemma ok_take_end: "race_ok es0 c \<Longrightarrow> gen c = Selecting \<Longrightarrow> getter c = Waiting \<Longrightarrow> slot c = Some StreamEnd \<Longrightarrow> race_ok es0 (c\<lparr>slot := None, ended := True, gen := Top\<rparr>)"
  by (cases "pump c"; simp add: race_ok_def race_views; elim conjE; simp)

lemma ok_take_failure: "race_ok es0 c \<Longrightarrow> gen c = Selecting \<Longrightarrow> getter c = Waiting \<Longrightarrow> slot c = Some (Failure err) \<Longrightarrow> race_ok es0 (c\<lparr>slot := None, gen := Raised err\<rparr>)"
  by (simp add: race_ok_def race_views map_filter_snoc; elim conjE; simp add: suffix_def; (elim exE conjE)?; simp?; (fastforce|auto))

lemma ok_resume_progress: "race_ok es0 c \<Longrightarrow> gen c \<in> {YieldedQueued, YieldedGot} \<Longrightarrow> race_ok es0 (c\<lparr>gen := Top\<rparr>)"
  by (cases "pump c"; elim insertE emptyE; simp add: race_ok_def race_views)

lemma ok_resume_event: "race_ok es0 c \<Longrightarrow> gen c = YieldedEvent \<Longrightarrow> race_ok es0 (c\<lparr>gen := Top, pump := Producing\<rparr>)"
  by (simp add: race_ok_def race_views map_filter_snoc; elim conjE; simp add: suffix_def; (elim exE conjE)?; simp?; (fastforce|auto))

lemmas step_ok_rules =
  ok_announce_handed
  ok_announce_late
  ok_announce_queued
  ok_getter_take
  ok_pump_item
  ok_pump_end
  ok_pump_fail
  ok_drain
  ok_finish
  ok_select_step
  ok_take_progress
  ok_take_event
  ok_take_end
  ok_take_failure
  ok_resume_progress
  ok_resume_event

lemma step_ok: "step calm c c' \<Longrightarrow> race_ok es c \<Longrightarrow> race_ok es c'"
  by (erule step.cases; hypsubst; rule step_ok_rules; assumption)

lemma reachable_ok: "reachable calm es fail c \<Longrightarrow> race_ok es c"
  by (induction rule: reachable.induct) (auto intro: race_ok_start step_ok)


text \<open>
  C17. No event overtakes the progress that led to it: whenever an event is handed to the
  client, everything announced before that event was produced is already out.
\<close>

theorem event_follows_its_progress:
  assumes "reachable calm es fail c" and "step calm c c'" and "events_out c' \<noteq> events_out c"
  shows "mset (take (due c) (announced c)) \<subseteq># mset (progress_out c)"
  using assms(2)
proof cases
  case (take_event e)
  note ok = race_okD [OF reachable_ok [OF assms(1)]]
  have "held c = []" using take_event by (simp add: held_def)
  with ok(3) have all: "mset (announced c) = mset (progress_out c) + mset (progress c)" by simp
  from ok(12) take_event obtain front where front: "announced c = front @ progress c"
    and "due c \<le> length (announced c) - length (progress c)" by (auto elim: suffixE)
  then have "take (due c) (announced c) = take (due c) front" by simp
  moreover have "mset front = mset (progress_out c)" using all front by simp
  moreover have "mset (take (due c) front) \<subseteq># mset front"
    by (metis append_take_drop_id mset_append mset_subset_eq_add_left)
  ultimately show ?thesis by simp
qed (use assms(3) in \<open>auto simp: race_views map_filter_snoc\<close>)

section \<open>The order of the progress itself\<close>

definition calm_ok :: "race \<Rightarrow> bool" where
  "calm_ok c \<longleftrightarrow>
     announced c = progress_out c @ held c @ progress c
     \<and> (getter c = Waiting \<longrightarrow> progress c = [])
     \<and> (gen c \<noteq> Selecting \<longrightarrow> held c = [])"

lemma calm_step_ok:
  assumes "step True c c'" and "calm_ok c"
  shows "calm_ok c'"
  using assms by cases (auto simp: calm_ok_def race_views map_filter_snoc)

text \<open>
  Progress goes out in the order announced as long as nothing is announced while the
  client is being written to with a task already waiting on the queue; in particular when all
  announcements are made by the tool call the pump itself is waiting for.
\<close>

theorem calm_progress_keeps_its_order:
  assumes "reachable True es fail c"
  shows "prefix (progress_out c) (announced c)"
proof -
  have "calm_ok (start es fail)"
    by (simp add: calm_ok_def start_def race_views)
  with assms have "calm_ok c"
    by (induction rule: reachable.induct) (auto intro: calm_step_ok)
  then show ?thesis by (simp add: calm_ok_def)
qed

section \<open>Two announcements behind a slow read\<close>

text \<open>
  A run of the code as it is. The client is being handed the run's one event; a second
  delegation, running in a task of its own, announces twice meanwhile. The waiting task takes
  the first announcement, the drain at the top of the loop sends the second, and the first
  follows it.
\<close>

abbreviation racing ::
    "event list \<Rightarrow> pump_phase \<Rightarrow> item option \<Rightarrow> event list \<Rightarrow> event waiting_task \<Rightarrow> gen_phase \<Rightarrow> bool \<Rightarrow>
     frame list \<Rightarrow> event list \<Rightarrow> event list \<Rightarrow> nat \<Rightarrow> race" where
  "racing scr pu sl pr ge ph en ou an pd du \<equiv>
     \<lparr>script = scr, failure = None, pump = pu, slot = sl, progress = pr, getter = ge, gen = ph,
      ended = en, out = ou, announced = an, produced = pd, due = du\<rparr>"

lemma slow_read:
  "reachable b [e] None (racing [] Joining None [] Waiting YieldedEvent False [EventFrame e] [] [e] 0)"
proof -
  have "reachable b [e] None (racing [e] Producing None [] Unscheduled Top False [] [] [] 0)"
    using reach_start [of b "[e]" None] by (simp add: start_def)
  from reach_step [OF this step.select_step]
  have "reachable b [e] None (racing [e] Producing None [] Waiting Selecting False [] [] [] 0)" by simp
  from reach_step [OF this step.pump_item [where e = e and es = "[]"]]
  have "reachable b [e] None (racing [] Joining (Some (Event e)) [] Waiting Selecting False [] [] [e] 0)"
    by simp
  from reach_step [OF this step.take_event [where e = e]] show ?thesis by simp
qed

lemma overtaken:
  "reachable False [e] None
     (racing [] PumpDone None [] Waiting Returned True
        [EventFrame e, ProgressFrame p2, ProgressFrame p1] [p1, p2] [e] 0)"
proof -
  from reach_step [OF slow_read step.announce_queued [where p = p1]]
  have "reachable False [e] None (racing [] Joining None [p1] Waiting YieldedEvent False [EventFrame e] [p1] [e] 0)"
    by (simp add: announce_def)
  from reach_step [OF this step.announce_queued [where p = p2]]
  have "reachable False [e] None (racing [] Joining None [p1, p2] Waiting YieldedEvent False [EventFrame e] [p1, p2] [e] 0)"
    by (simp add: announce_def)
  from reach_step [OF this step.getter_take [where p = p1 and ps = "[p2]"]]
  have "reachable False [e] None (racing [] Joining None [p2] (Got p1) YieldedEvent False [EventFrame e] [p1, p2] [e] 0)"
    by simp
  from reach_step [OF this step.resume_event]
  have "reachable False [e] None (racing [] Producing None [p2] (Got p1) Top False [EventFrame e] [p1, p2] [e] 0)"
    by simp
  from reach_step [OF this step.drain [where p = p2 and ps = "[]"]]
  have "reachable False [e] None (racing [] Producing None [] (Got p1) YieldedQueued False
      [EventFrame e, ProgressFrame p2] [p1, p2] [e] 0)" by simp
  from reach_step [OF this step.resume_progress]
  have "reachable False [e] None (racing [] Producing None [] (Got p1) Top False
      [EventFrame e, ProgressFrame p2] [p1, p2] [e] 0)" by simp
  from reach_step [OF this step.select_step]
  have "reachable False [e] None (racing [] Producing None [] (Got p1) Selecting False
      [EventFrame e, ProgressFrame p2] [p1, p2] [e] 0)" by simp
  from reach_step [OF this step.take_progress [where p = p1]]
  have "reachable False [e] None (racing [] Producing None [] Unscheduled YieldedGot False
      [EventFrame e, ProgressFrame p2, ProgressFrame p1] [p1, p2] [e] 0)" by simp
  from reach_step [OF this step.resume_progress]
  have "reachable False [e] None (racing [] Producing None [] Unscheduled Top False
      [EventFrame e, ProgressFrame p2, ProgressFrame p1] [p1, p2] [e] 0)" by simp
  from reach_step [OF this step.select_step]
  have "reachable False [e] None (racing [] Producing None [] Waiting Selecting False
      [EventFrame e, ProgressFrame p2, ProgressFrame p1] [p1, p2] [e] 0)" by simp
  from reach_step [OF this step.pump_end]
  have "reachable False [e] None (racing [] PumpDone (Some StreamEnd) [] Waiting Selecting False
      [EventFrame e, ProgressFrame p2, ProgressFrame p1] [p1, p2] [e] 0)" by simp
  from reach_step [OF this step.take_end]
  have "reachable False [e] None (racing [] PumpDone None [] Waiting Top True
      [EventFrame e, ProgressFrame p2, ProgressFrame p1] [p1, p2] [e] 0)" by simp
  from reach_step [OF this step.finish] show ?thesis by simp
qed

text \<open>
  The code as it is can reverse progress: there is a run in which a delegation's second
  announcement reaches the client before its first, so the order promised by ``as it is
  announced'' holds only for the calm runs.
\<close>

theorem progress_can_be_reversed:
  "\<exists>c. reachable False [e] None c \<and> gen c = Returned
     \<and> announced c = [p1, p2] \<and> progress_out c = [p2, p1]"
  using overtaken [of e p2 p1] by (intro exI conjI) (auto simp: race_views)

section \<open>The race comes to an end\<close>

text \<open>
  Work left: what upstream still has to say, what is held or queued, and where the generator
  stands. Every step but an announcement uses some up.
\<close>

definition upstream_left :: "race \<Rightarrow> nat" where
  "upstream_left c = 2 * length (script c) + (if pump c = PumpDone then 0 else 2)
     + (if slot c = None then 0 else 1)"

definition progress_left :: "race \<Rightarrow> nat" where
  "progress_left c = 2 * length (progress c) + length (held c)"

definition gen_left :: "gen_phase \<Rightarrow> nat" where
  "gen_left g = (case g of
     Top \<Rightarrow> 2 | Selecting \<Rightarrow> 1 | YieldedQueued \<Rightarrow> 3 | YieldedGot \<Rightarrow> 3 | YieldedEvent \<Rightarrow> 3
   | Returned \<Rightarrow> 0 | Raised _ \<Rightarrow> 0)"

definition left :: "race \<Rightarrow> nat" where
  "left c = 3 * (upstream_left c + progress_left c) + gen_left (gen c)"

lemmas left_defs = left_def upstream_left_def progress_left_def gen_left_def held_def announce_def

lemma step_uses_up:
  assumes "step calm c c'" and "race_ok es c"
  shows "left c' + 1 + 7 * length (announced c) \<le> left c + 7 * length (announced c')"
  using assms(1)
proof cases
  case pump_item
  with race_okD(5) [OF assms(2)] show ?thesis by (auto simp: left_defs)
next
  case pump_end
  with race_okD(5) [OF assms(2)] show ?thesis by (auto simp: left_defs)
next
  case pump_fail
  with race_okD(5) [OF assms(2)] show ?thesis by (auto simp: left_defs)
next
  case resume_event
  with race_okD(7) [OF assms(2)] show ?thesis by (auto simp: left_defs)
qed (auto simp: left_defs split: waiting_task.splits)

lemma power_ok: "(step calm ^^ n) (start es fail) c \<Longrightarrow> race_ok es c"
  by (induction n arbitrary: c) (auto intro: race_ok_start step_ok)

text \<open>
  C39. The race cannot run on by itself: a run over \<open>es\<close> in which \<open>k\<close> events were announced has
  at most \<open>6 * length es + 7 * k + 8\<close> steps, whatever order they come in.
\<close>

theorem race_is_bounded:
  assumes "(step calm ^^ n) (start es fail) c"
  shows "n \<le> 6 * length es + 7 * length (announced c) + 8"
proof -
  have "n + left c \<le> 6 * length es + 7 * length (announced c) + 8"
    using assms
  proof (induction n arbitrary: c)
    case 0
    then show ?case by (auto simp: start_def left_defs)
  next
    case (Suc n)
    then obtain b where b: "(step calm ^^ n) (start es fail) b" "step calm b c" by auto
    from Suc.IH [OF b(1)] step_uses_up [OF b(2) power_ok [OF b(1)]] show ?case by simp
  qed
  then show ?thesis by simp
qed

definition final :: "race \<Rightarrow> bool" where
  "final c \<longleftrightarrow> (case gen c of Returned \<Rightarrow> True | Raised _ \<Rightarrow> True | _ \<Rightarrow> False)"

text \<open>How the run ends is how upstream does.\<close>

definition ends_as :: "string option \<Rightarrow> race \<Rightarrow> bool" where
  "ends_as fail c \<longleftrightarrow> failure c = fail
     \<and> (slot c = Some StreamEnd \<or> ended c \<or> gen c = Returned \<longrightarrow> fail = None)
     \<and> (\<forall>e. slot c = Some (Failure e) \<or> gen c = Raised e \<longrightarrow> fail = Some e)
     \<and> (pump c = PumpDone \<longrightarrow> slot c \<noteq> None \<or> ended c \<or> final c)"

lemma step_ends_as: "step calm c c' \<Longrightarrow> race_ok es c \<Longrightarrow> ends_as fail c \<Longrightarrow> ends_as fail c'"
  by (erule step.cases) (auto simp: ends_as_def final_def announce_def in_slot_def dest: race_okD(5,7,8))

lemma reachable_ends_as: "reachable calm es fail c \<Longrightarrow> ends_as fail c"
proof (induction rule: reachable.induct)
  case reach_start
  then show ?case by (simp add: ends_as_def start_def)
next
  case (reach_step c c')
  then show ?case by (metis step_ends_as reachable_ok)
qed

lemma pump_goes_on: "pump c = Producing \<Longrightarrow> \<exists>c'. step calm c c' \<and> announced c' = announced c"
proof (cases "script c")
  case Nil
  assume "pump c = Producing"
  with Nil step.pump_end [of c calm] step.pump_fail [of c _ calm] show ?thesis
    by (cases "failure c") (fastforce simp del: One_nat_def)+
next
  case (Cons e es)
  assume "pump c = Producing"
  from step.pump_item [OF this Cons, of calm] show ?thesis by fastforce
qed

lemma selection_goes_on:
  assumes "race_ok es c" and "ends_as fail c" and "gen c = Selecting"
  shows "\<exists>c'. step calm c c' \<and> announced c' = announced c"
proof (cases "getter c")
  case Unscheduled
  with assms(3) race_okD(11) [OF assms(1)] show ?thesis by simp
next
  case (Got p)
  from step.take_progress [OF assms(3) Got, of calm] show ?thesis by fastforce
next
  case Waiting
  show ?thesis
  proof (cases "slot c")
    case None
    with assms(2,3) race_okD(6,9) [OF assms(1)] have "pump c = Producing"
      by (cases "pump c") (auto simp: ends_as_def in_slot_def final_def)
    then show ?thesis by (rule pump_goes_on)
  next
    case (Some i)
    with assms(3) Waiting step.take_event [of c _ calm] step.take_end [of c calm]
      step.take_failure [of c _ calm] show ?thesis
      by (cases i) fastforce+
  qed
qed

lemma never_stuck:
  assumes "race_ok es c" and "ends_as fail c" and "\<not> final c"
  shows "\<exists>c'. step calm c c' \<and> announced c' = announced c"
proof (cases "gen c")
  case Top
  show ?thesis
  proof (cases "progress c")
    case Nil
    with Top step.finish [of c calm] step.select_step [of c calm] show ?thesis
      by (cases "ended c") fastforce+
  next
    case (Cons p ps)
    from step.drain [OF Top this, of calm] show ?thesis by fastforce
  qed
next
  case Selecting
  with assms(1,2) show ?thesis by (rule selection_goes_on)
next
  case YieldedQueued
  then have "gen c \<in> {YieldedQueued, YieldedGot}" by simp
  from step.resume_progress [OF this, of calm] show ?thesis by fastforce
next
  case YieldedGot
  then have "gen c \<in> {YieldedQueued, YieldedGot}" by simp
  from step.resume_progress [OF this, of calm] show ?thesis by fastforce
next
  case YieldedEvent
  from step.resume_event [OF this, of calm] show ?thesis by fastforce
qed (use assms(3) in \<open>simp_all add: final_def\<close>)


lemma race_is_bounded_witness:
  "\<exists>c. (step True ^^ 1) (start [] None) c \<and> 1 \<le> 6 * length ([] :: event list) + 7 * length (announced c) + 8"
proof -
  obtain c where c: "(step True ^^ 1) (start [] None) c"
    using step.select_step [of "start [] None" True] by (fastforce simp: start_def)
  from race_is_bounded [OF c] c show ?thesis by blast
qed



lemma calm_progress_keeps_its_order_witness:
  "\<exists>c. reachable True [OtherEvent ''RAW''] None c \<and> prefix (progress_out c) (announced c)"
proof -
  note run = slow_read [of True "OtherEvent ''RAW''"]
  from calm_progress_keeps_its_order [OF run] run show ?thesis by blast
qed

lemma event_follows_its_progress_witness:
  "\<exists>c c'. reachable True [OtherEvent ''RAW''] None c \<and> step True c c' \<and> events_out c' \<noteq> events_out c
     \<and> mset (take (due c) (announced c)) \<subseteq># mset (progress_out c) \<and> due c = 1"
proof -
  let ?e = "OtherEvent ''RAW''" and ?p = "OtherEvent ''P''"
  have "reachable True [?e] None (racing [?e] Producing None [] Unscheduled Top False [] [] [] 0)"
    using reach_start [of True "[?e]" None] by (simp add: start_def)
  from reach_step [OF this step.announce_queued [where p = ?p]]
  have "reachable True [?e] None (racing [?e] Producing None [?p] Unscheduled Top False [] [?p] [] 0)"
    by (simp add: announce_def)
  from reach_step [OF this step.pump_item [where e = ?e and es = "[]"]]
  have "reachable True [?e] None (racing [] Joining (Some (Event ?e)) [?p] Unscheduled Top False [] [?p] [?e] 1)"
    by simp
  from reach_step [OF this step.drain [where p = ?p and ps = "[]"]]
  have "reachable True [?e] None (racing [] Joining (Some (Event ?e)) [] Unscheduled YieldedQueued False
      [ProgressFrame ?p] [?p] [?e] 1)" by simp
  from reach_step [OF this step.resume_progress]
  have "reachable True [?e] None (racing [] Joining (Some (Event ?e)) [] Unscheduled Top False
      [ProgressFrame ?p] [?p] [?e] 1)" by simp
  from reach_step [OF this step.select_step]
  have r: "reachable True [?e] None (racing [] Joining (Some (Event ?e)) [] Waiting Selecting False
      [ProgressFrame ?p] [?p] [?e] 1)" by simp
  have st: "step True (racing [] Joining (Some (Event ?e)) [] Waiting Selecting False
      [ProgressFrame ?p] [?p] [?e] 1) (racing [] Joining None [] Waiting YieldedEvent False
      [ProgressFrame ?p, EventFrame ?e] [?p] [?e] 1)"
    using step.take_event [of "racing [] Joining (Some (Event ?e)) [] Waiting Selecting False
      [ProgressFrame ?p] [?p] [?e] 1" ?e True] by simp
  have "events_out (racing [] Joining None [] Waiting YieldedEvent False
      [ProgressFrame ?p, EventFrame ?e] [?p] [?e] 1) \<noteq> events_out (racing [] Joining (Some (Event ?e))
      [] Waiting Selecting False [ProgressFrame ?p] [?p] [?e] 1)"
    by (simp add: race_views)
  from event_follows_its_progress [OF r st this] r st this show ?thesis
    by (metis (no_types, lifting) race.select_convs(12))
qed

end
