(* ===== verification/StreamFilters.thy ===== *)
theory StreamFilters
  imports Wire
begin

text \<open>
  The wrappers around the event stream that need no task of their own: the reasoning filter
  (\<open>agent/reasoning_filter.py\<close>), the two injectors that drain a sink between events
  (\<open>agent/inject_compaction_events.py\<close>, \<open>agent/inject_invalidation_events.py\<close>) with the
  observer that fills one of them (\<open>agent/compaction_observer.py\<close>), and the approval prompts
  (\<open>agent/stamp_approval_prompts.py\<close>).
\<close>

section \<open>Withheld reasoning\<close>

definition is_reasoning_type :: "string \<Rightarrow> bool" where
  "is_reasoning_type t \<longleftrightarrow> take 9 t = ''REASONING''"

definition drop_reasoning_events :: "event list \<Rightarrow> event list" where
  "drop_reasoning_events es = filter (\<lambda>e. \<not> is_reasoning_type (event_type e)) es"

section \<open>Draining a sink between events\<close>

text \<open>
  What the upstream stream does as seen from an injector: before each event, what was written
  to the sink since the last drain; at the end, what was written since and whether upstream
  ended by raising.
\<close>

record 'x upstream =
  steps :: "('x list \<times> event) list"
  trailing :: "'x list"
  raises :: bool

text \<open>\<open>_drain\<close>: everything recorded so far, leaving the sink empty.\<close>

definition drain :: "('x \<Rightarrow> event) \<Rightarrow> 'x list \<Rightarrow> event list \<times> 'x list" where
  "drain to_event sink = (map to_event sink, [])"

fun forward :: "('x \<Rightarrow> event) \<Rightarrow> 'x list \<Rightarrow> ('x list \<times> event) list \<Rightarrow> event list \<times> 'x list" where
  "forward to_event sink [] = ([], sink)"
| "forward to_event sink ((written, e) # rest) =
     (case drain to_event (sink @ written) of
        (drained, sink') \<Rightarrow>
          (case forward to_event sink' rest of (es, sink'') \<Rightarrow> (drained @ e # es, sink'')))"

definition inject_events :: "('x \<Rightarrow> event) \<Rightarrow> 'x upstream \<Rightarrow> event list" where
  "inject_events to_event up =
     (case forward to_event [] (steps up) of
        (es, sink) \<Rightarrow>
          if raises up then es else es @ fst (drain to_event (sink @ trailing up)))"

section \<open>Compactions\<close>

record compaction =
  comp_before :: int
  comp_after :: int

definition removed :: "compaction \<Rightarrow> int" where
  "removed c = comp_before c - comp_after c"

text \<open>The activity's id holds a fresh \<open>uuid\<close>, which is drawn with the compaction.\<close>

definition compaction_event :: "string \<times> compaction \<Rightarrow> event" where
  "compaction_event uc =
     (case uc of (uuid, c) \<Rightarrow>
       ActivitySnapshot (''compaction-'' @ uuid) ''compaction''
         (fmap_of_list [(''removed'', JInt (removed c)), (''before'', JInt (comp_before c)),
                        (''after'', JInt (comp_after c))]) None)"

definition inject_compaction_events :: "(string \<times> compaction) upstream \<Rightarrow> event list" where
  "inject_compaction_events up = inject_events compaction_event up"

definition inject_invalidation_events :: "event upstream \<Rightarrow> event list" where
  "inject_invalidation_events up = inject_events (\<lambda>e. e) up"

text \<open>
  \<open>before_model_request\<close>: the wrapped capability is a function on the message count; the sink
  is \<open>None\<close> outside a run.
\<close>

definition observe_compaction ::
    "int \<Rightarrow> int \<Rightarrow> compaction list option \<Rightarrow> compaction list option" where
  "observe_compaction before after sink =
     (case sink of
        None \<Rightarrow> None
      | Some s \<Rightarrow>
          if after < before then Some (s @ [\<lparr>comp_before = before, comp_after = after\<rparr>]) else Some s)"

section \<open>Approval prompts\<close>

definition x_confirm :: string where
  "x_confirm = ''x-confirm''"

definition with_prompt :: "(string \<rightharpoonup> string) \<Rightarrow> (string \<rightharpoonup> ustr) \<Rightarrow> interrupt \<Rightarrow> interrupt" where
  "with_prompt names prompts i =
     (let metadata = (case int_metadata i of None \<Rightarrow> fmempty | Some d \<Rightarrow> d) in
      if (case fmlookup metadata x_confirm of None \<Rightarrow> False | Some v \<Rightarrow> truthy v) then i
      else case int_call_id i of
             None \<Rightarrow> i
           | Some call \<Rightarrow>
               (case prompts (case names call of None \<Rightarrow> [] | Some n \<Rightarrow> n) of
                  None \<Rightarrow> i
                | Some prompt \<Rightarrow>
                    if prompt = [] then i
                    else i\<lparr>int_metadata := Some (fmupd x_confirm (JStr prompt) metadata)\<rparr>))"

fun stamped :: "(string \<rightharpoonup> string) \<Rightarrow> (string \<rightharpoonup> ustr) \<Rightarrow> event \<Rightarrow> event" where
  "stamped names prompts (RunFinished (Some (RunInterrupted interrupts))) =
     (let marked = map (with_prompt names prompts) interrupts in
      if marked = interrupts then RunFinished (Some (RunInterrupted interrupts))
      else RunFinished (Some (RunInterrupted marked)))"
| "stamped names prompts e = e"

fun stamp_prompts :: "(string \<rightharpoonup> ustr) \<Rightarrow> (string \<rightharpoonup> string) \<Rightarrow> event list \<Rightarrow> event list" where
  "stamp_prompts prompts names [] = []"
| "stamp_prompts prompts names (e # es) =
     (case e of
        ToolCallStart c n _ \<Rightarrow> e # stamp_prompts prompts (names(c \<mapsto> n)) es
      | RunFinished _ \<Rightarrow> stamped names prompts e # stamp_prompts prompts names es
      | _ \<Rightarrow> e # stamp_prompts prompts names es)"

definition stamp_approval_prompts :: "(string \<rightharpoonup> ustr) \<Rightarrow> event list \<Rightarrow> event list" where
  "stamp_approval_prompts prompts es = stamp_prompts prompts Map.empty es"

section \<open>Properties\<close>

lemma forward_steps:
  "forward to_event sink sts =
     (case sts of
        [] \<Rightarrow> ([], sink)
      | (w, e) # rest \<Rightarrow>
          (map to_event sink @ concat (map (\<lambda>(w, e). map to_event w @ [e]) sts), []))"
proof (induction sts arbitrary: sink)
  case (Cons we sts)
  obtain w e where we: "we = (w, e)" by fastforce
  show ?case
    using Cons [of "[]"] by (simp add: we drain_def split: list.splits prod.splits)
qed simp

lemma inject_events_placed:
  "inject_events to_event up =
     concat (map (\<lambda>(w, e). map to_event w @ [e]) (steps up))
       @ (if raises up then [] else map to_event (trailing up))"
  by (auto simp: inject_events_def forward_steps drain_def split: list.split prod.split)

text \<open>
  Compactions and invalidations surface where they happened: each sink entry goes out, once
  and in the order written, directly before the event during whose production it was written,
  entries written after the last event go out at the end of a stream that ends normally, and
  the upstream events keep their order.
\<close>

theorem sink_entries_surface_in_place:
  "inject_compaction_events cs =
     concat (map (\<lambda>(w, e). map compaction_event w @ [e]) (steps cs))
       @ (if raises cs then [] else map compaction_event (trailing cs))
   \<and> inject_invalidation_events is =
     concat (map (\<lambda>(w, e). w @ [e]) (steps is)) @ (if raises is then [] else trailing is)"
  by (simp add: inject_compaction_events_def inject_invalidation_events_def inject_events_placed)

text \<open>The tool names a prefix of the stream announced, the latest per call.\<close>

fun started_call :: "event \<Rightarrow> (string \<times> string) option" where
  "started_call (ToolCallStart c n _) = Some (c, n)"
| "started_call _ = None"

definition call_names :: "event list \<Rightarrow> (string \<rightharpoonup> string)" where
  "call_names es = map_of (rev (List.map_filter started_call es))"

lemma stamp_prompts_nth:
  "length (stamp_prompts prompts names es) = length es
   \<and> (\<forall>k < length es. stamp_prompts prompts names es ! k =
        stamped (names ++ call_names (take k es)) prompts (es ! k))"
proof (induction prompts names es rule: stamp_prompts.induct)
  case (2 prompts names e es)
  have start: "names(c \<mapsto> n) ++ call_names xs = names ++ call_names (ToolCallStart c n p # xs)" for c n p xs
    by (simp add: call_names_def map_filter_simps)
  have other: "started_call e = None \<Longrightarrow> call_names (e # xs) = call_names xs" for xs
    by (simp add: call_names_def map_filter_simps)
  have nil: "names ++ call_names [] = names" by (simp add: call_names_def map_filter_simps)
  show ?case
  proof (cases "\<exists>c n p. e = ToolCallStart c n p")
    case True
    then obtain c n p where e: "e = ToolCallStart c n p" by blast
    have IH: "length (stamp_prompts prompts (names(c \<mapsto> n)) es) = length es
        \<and> (\<forall>k < length es. stamp_prompts prompts (names(c \<mapsto> n)) es ! k
           = stamped (names(c \<mapsto> n) ++ call_names (take k es)) prompts (es ! k))"
      by (rule 2(3) [OF e])
    show ?thesis unfolding e
      using IH by (auto simp: start [symmetric] nth_Cons nil split: nat.split)
  next
    case False
    then have tail: "stamp_prompts prompts names (e # es) = stamped names prompts e # stamp_prompts prompts names es"
      by (cases e) simp_all
    have IH: "length (stamp_prompts prompts names es) = length es
        \<and> (\<forall>k < length es. stamp_prompts prompts names es ! k
           = stamped (names ++ call_names (take k es)) prompts (es ! k))"
      using 2 False by (cases e) simp_all
    have "started_call e = None" using False by (cases e) simp_all
    with other have "call_names (take (Suc k) (e # es)) = call_names (take k es)" for k by simp
    with tail IH show ?thesis by (auto simp: nth_Cons nil split: nat.split)
  qed
qed simp

definition names_after :: "(string \<rightharpoonup> string) \<Rightarrow> event \<Rightarrow> (string \<rightharpoonup> string)" where
  "names_after names e = (case e of ToolCallStart c n _ \<Rightarrow> names(c \<mapsto> n) | _ \<Rightarrow> names)"

lemma stamp_step:
  "stamp_prompts prompts names (e # es) = stamped names prompts e # stamp_prompts prompts (names_after names e) es"
  by (cases e) (simp_all add: names_after_def)

lemma stamped_no_prompts: "stamped names Map.empty e = e"
proof -
  have "with_prompt names Map.empty i = i" for i
    by (simp add: with_prompt_def Let_def split: option.split)
  then show ?thesis
    by (cases "(names, Map.empty :: string \<rightharpoonup> ustr, e)" rule: stamped.cases) (simp_all add: Let_def map_idI)
qed

lemma no_prompts: "stamp_prompts Map.empty names es = es"
  by (induction es arbitrary: names) (simp_all add: stamp_step stamped_no_prompts del: stamp_prompts.simps(2))

lemma stamp_prompts_append:
  "stamp_prompts prompts names (xs @ ys)
     = stamp_prompts prompts names xs @ stamp_prompts prompts (fold (\<lambda>e n. names_after n e) xs names) ys"
  by (induction xs arbitrary: names) (simp_all add: stamp_step del: stamp_prompts.simps(2))

text \<open>What is asked of the person for one interrupt.\<close>

definition asks :: "(string \<rightharpoonup> string) \<Rightarrow> (string \<rightharpoonup> ustr) \<Rightarrow> interrupt \<Rightarrow> ustr option" where
  "asks names prompts i =
     (case Option.bind (int_call_id i) (\<lambda>c. prompts (case names c of None \<Rightarrow> [] | Some n \<Rightarrow> n)) of
        Some p \<Rightarrow> if p = [] then None else Some p
      | None \<Rightarrow> None)"

definition confirmed :: "interrupt \<Rightarrow> bool" where
  "confirmed i =
     (case Option.bind (int_metadata i) (\<lambda>d. fmlookup d x_confirm) of None \<Rightarrow> False | Some v \<Rightarrow> truthy v)"

lemma with_prompt_cases:
  "with_prompt names prompts i =
     (case asks names prompts i of
        None \<Rightarrow> i
      | Some p \<Rightarrow>
          if confirmed i then i
          else i\<lparr>int_metadata := Some (fmupd x_confirm (JStr p)
                 (case int_metadata i of None \<Rightarrow> fmempty | Some d \<Rightarrow> d))\<rparr>)"
  by (cases "int_metadata i"; cases "int_call_id i")
     (auto simp: with_prompt_def asks_def confirmed_def Let_def split: option.splits)

lemma stamped_interrupts:
  "stamped names prompts (RunFinished (Some (RunInterrupted is)))
     = RunFinished (Some (RunInterrupted (map (with_prompt names prompts) is)))"
  by (simp add: Let_def)

lemma stamped_other: "event_type e \<noteq> ''RUN_FINISHED'' \<Longrightarrow> stamped names prompts e = e"
  by (cases e) simp_all

text \<open>
  Approval prompts reach the interrupts and nothing else: the stream keeps its length and
  its order, the event at each place is the event that was there, and in the interrupts of a
  terminal event each one is given the prompt configured for the tool that the latest
  \<open>TOOL_CALL_START\<close> before it named for its call, unless it already carries a confirmation of
  its own or there is no non-empty prompt; every other key of its metadata is kept.
\<close>

theorem approval_prompts_are_stamped:
  assumes "k < length es"
  shows "length (stamp_approval_prompts prompts es) = length es
    \<and> (event_type (es ! k) \<noteq> ''RUN_FINISHED'' \<longrightarrow> stamp_approval_prompts prompts es ! k = es ! k)
    \<and> (es ! k = RunFinished (Some (RunInterrupted is)) \<longrightarrow>
        stamp_approval_prompts prompts es ! k = RunFinished (Some (RunInterrupted
          (map (\<lambda>i. case asks (call_names (take k es)) prompts i of
                  None \<Rightarrow> i
                | Some p \<Rightarrow>
                    if confirmed i then i
                    else i\<lparr>int_metadata := Some (fmupd x_confirm (JStr p)
                           (case int_metadata i of None \<Rightarrow> fmempty | Some d \<Rightarrow> d))\<rparr>) is))))"
proof -
  have nth: "stamp_approval_prompts prompts es ! k = stamped (call_names (take k es)) prompts (es ! k)"
    and len: "length (stamp_approval_prompts prompts es) = length es"
    using stamp_prompts_nth [of prompts Map.empty es] assms
    by (simp_all add: stamp_approval_prompts_def)
  show ?thesis
    unfolding nth using len stamped_other [of "es ! k" "call_names (take k es)" prompts]
    by (auto simp: with_prompt_cases simp del: stamped.simps simp add: stamped_interrupts
        cong: map_cong)
qed

definition gated_run :: "event list" where
  "gated_run = [ToolCallStart ''c1'' ''create_event'' None,
     RunFinished (Some (RunInterrupted [\<lparr>int_id = ''i1'', int_call_id = Some ''c1'', int_metadata = None\<rparr>]))]"

lemma approval_prompts_are_stamped_witness:
  "stamp_approval_prompts [''create_event'' \<mapsto> ustr ''Add it?''] gated_run ! 1
     = RunFinished (Some (RunInterrupted [\<lparr>int_id = ''i1'', int_call_id = Some ''c1'',
         int_metadata = Some (fmupd x_confirm (JStr (ustr ''Add it?'')) fmempty)\<rparr>]))"
proof -
  have "1 < length gated_run" by (simp add: gated_run_def)
  from approval_prompts_are_stamped [OF this, of "[''create_event'' \<mapsto> ustr ''Add it?'']"
      "[\<lparr>int_id = ''i1'', int_call_id = Some ''c1'', int_metadata = None\<rparr>]"]
  show ?thesis
    by (simp add: gated_run_def asks_def confirmed_def call_names_def map_filter_simps)
qed

end
