(* ===== verification/Teardown.thy ===== *)
theory Teardown
  imports Wire
begin

text \<open>
  The outer frames of a response: the heartbeat written into a silent stream
  (\<open>agent/heartbeat_stream.py\<close>) and the teardown of a disconnected run
  (\<open>agent/guarded_stream.py\<close>).
\<close>

section \<open>Heartbeats\<close>

text \<open>
  Time is counted in ticks from the moment the client last took a frame: each chunk comes with
  how long the stream stays silent before it. \<open>asyncio.wait\<close> with a timeout leaves the
  pending read alone, so a silence longer than the interval is the same read waited for again.
\<close>

datatype 'a beat_frame = Beat | Chunk 'a

datatype read_end = Exhausted | Fails string

fun await_chunk :: "nat \<Rightarrow> nat \<Rightarrow> nat \<Rightarrow> (nat \<times> 'a beat_frame) list \<times> nat" where
  "await_chunk interval now silence =
     (if interval = 0 \<or> silence \<le> interval then ([], now + silence)
      else (case await_chunk interval (now + interval) (silence - interval) of
              (beats, arrival) \<Rightarrow> ((now + interval, Beat) # beats, arrival)))"

declare await_chunk.simps [simp del]

fun heartbeat_stream ::
    "nat \<Rightarrow> nat \<Rightarrow> (nat \<times> 'a) list \<Rightarrow> nat \<Rightarrow> read_end \<Rightarrow> (nat \<times> 'a beat_frame) list \<times> read_end \<times> nat"
where
  "heartbeat_stream interval now [] last_silence how =
     (case await_chunk interval now last_silence of (beats, arrival) \<Rightarrow> (beats, how, arrival))"
| "heartbeat_stream interval now ((silence, chunk) # rest) last_silence how =
     (case await_chunk interval now silence of
        (beats, arrival) \<Rightarrow>
          (case heartbeat_stream interval arrival rest last_silence how of
             (frames, r) \<Rightarrow> (beats @ (arrival, Chunk chunk) # frames, r)))"

fun chunk_of :: "'a beat_frame \<Rightarrow> 'a option" where
  "chunk_of Beat = None"
| "chunk_of (Chunk c) = Some c"

text \<open>The longest time with nothing on the wire, from \<open>now\<close> to the last frame and the end.\<close>

fun paced :: "nat \<Rightarrow> nat \<Rightarrow> nat list \<Rightarrow> bool" where
  "paced interval now [] = True"
| "paced interval now (t # ts) = (now \<le> t \<and> t - now \<le> interval \<and> paced interval t ts)"

lemma paced_append:
  "paced interval now (xs @ ys) \<longleftrightarrow> paced interval now xs \<and> paced interval (last (now # xs)) ys"
  by (induction xs arbitrary: now) auto

lemma await_chunk_paced:
  fixes beats :: "(nat \<times> 'a beat_frame) list"
  assumes "0 < interval" and "await_chunk interval now silence = (beats, arrival)"
  shows "List.map_filter (chunk_of \<circ> snd) beats = []
    \<and> arrival = now + silence \<and> paced interval now (map fst beats @ [arrival])
    \<and> (beats = [] \<longleftrightarrow> silence \<le> interval)"
  using assms
proof (induction interval now silence arbitrary: beats rule: await_chunk.induct)
  case (1 interval now silence)
  show ?case
  proof (cases "silence \<le> interval")
    case True
    with 1(3) show ?thesis by (subst (asm) await_chunk.simps) (auto simp: map_filter_simps)
  next
    case False
    obtain bs :: "(nat \<times> 'a beat_frame) list" and a where r: "await_chunk interval (now + interval) (silence - interval) = (bs, a)" by fastforce
    have "beats = (now + interval, Beat) # bs" "arrival = a"
      using 1(2,3) False r by (subst (asm) await_chunk.simps; simp)+
    with 1(1) [OF _ 1(2), of bs] 1(2) False r show ?thesis
      by (auto simp: map_filter_simps comp_def)
  qed
qed

text \<open>
  C20. The heartbeat keeps the wire from going quiet and changes nothing else: the chunks leave
  in the order read, none lost, the stream ends the way the inner one did, no two frames are
  more than one interval apart nor is the end, and a stream that never stays silent longer
  than the interval is passed through without a single beat.
\<close>

theorem heartbeat_paces_the_stream:
  fixes reads :: "(nat \<times> 'a) list" and frames :: "(nat \<times> 'a beat_frame) list"
  assumes "0 < interval" and "heartbeat_stream interval now reads last_silence how = (frames, how', ending)"
  shows "List.map_filter (chunk_of \<circ> snd) frames = map snd reads
    \<and> how' = how
    \<and> paced interval now (map fst frames @ [ending])
    \<and> (list_all (\<lambda>r. fst r \<le> interval) reads \<and> last_silence \<le> interval \<longrightarrow>
         map snd frames = map (Chunk \<circ> snd) reads)"
  using assms(2)
proof (induction reads arbitrary: now frames)
  case Nil
  obtain beats :: "(nat \<times> 'a beat_frame) list" and arrival where a: "await_chunk interval now last_silence = (beats, arrival)" by fastforce
  with Nil have "frames = beats" "how' = how" "ending = arrival" by simp_all
  with await_chunk_paced [OF assms(1) a] show ?case by (auto simp: comp_def)
next
  case (Cons r reads)
  obtain silence chunk where r: "r = (silence, chunk)" by fastforce
  obtain beats :: "(nat \<times> 'a beat_frame) list" and arrival where a: "await_chunk interval now silence = (beats, arrival)" by fastforce
  obtain frames' :: "(nat \<times> 'a beat_frame) list" where h: "heartbeat_stream interval arrival reads last_silence how = (frames', how', ending)"
      "frames = beats @ (arrival, Chunk chunk) # frames'"
    using Cons.prems r a by (auto split: prod.splits)
  have app: "List.map_filter f (xs @ ys) = List.map_filter f xs @ List.map_filter f ys"
    for f :: "nat \<times> 'a beat_frame \<Rightarrow> 'a option" and xs ys
    by (induction xs) (simp_all add: map_filter_simps split: option.split)
  have "paced interval now ((map fst beats @ [arrival]) @ (map fst frames' @ [ending]))"
    unfolding paced_append [of interval now "map fst beats @ [arrival]"]
    using await_chunk_paced [OF assms(1) a] Cons.IH [OF h(1)] by auto
  with await_chunk_paced [OF assms(1) a] Cons.IH [OF h(1)] h(2) r show ?case
    by (auto simp: app map_filter_simps comp_def)
qed

lemma heartbeat_paces_the_stream_witness:
  "map snd (fst (heartbeat_stream 10 0 [(3, CHR ''a''), (25, CHR ''b'')] 4 Exhausted))
     = [Chunk CHR ''a'', Beat, Beat, Chunk CHR ''b'']
   \<and> paced 10 0 (map fst (fst (heartbeat_stream 10 0 [(3, CHR ''a''), (25, CHR ''b'')] 4 Exhausted)))"
proof -
  obtain frames how ending where h: "heartbeat_stream 10 0 [(3, CHR ''a''), (25, CHR ''b'')] 4 Exhausted
      = (frames, how, ending)" by (metis prod_cases3)
  have "map snd (fst (heartbeat_stream 10 0 [(3, CHR ''a''), (25, CHR ''b'')] 4 Exhausted))
     = [Chunk CHR ''a'', Beat, Beat, Chunk CHR ''b'']"
    by (simp add: await_chunk.simps)
  with heartbeat_paces_the_stream [OF _ h] h show ?thesis by (simp add: paced_append)
qed

section \<open>Teardown of a disconnected run\<close>

datatype cancellation = TaskCancelled | GeneratorClosed

datatype 'a stream_end = StreamDone | StreamRaised string | StreamCancelled cancellation

datatype close_effect = NoClose | ClosesCleanly | CloseRaises

datatype teardown =
    Closing string nat
  | LoggedClose string
  | Finalizing
  | LoggedFinalize
  | LoggedTimeout

datatype teardown_exit = Passes | Raises string | Reraises cancellation

definition close_quietly :: "string \<Rightarrow> nat \<times> close_effect \<Rightarrow> teardown list" where
  "close_quietly what stage =
     (case stage of
        (_, NoClose) \<Rightarrow> []
      | (n, ClosesCleanly) \<Rightarrow> [Closing what n]
      | (n, CloseRaises) \<Rightarrow> [Closing what n, LoggedClose what])"

definition finalize_quietly :: "bool \<Rightarrow> teardown list" where
  "finalize_quietly on_cancel_raises =
     Finalizing # (if on_cancel_raises then [LoggedFinalize] else [])"

text \<open>
  \<open>closers\<close> are what closing \<open>stream\<close> and the racing stages does, outermost first, and
  \<open>native\<close> what closing the provider's stream does; \<open>settles\<close> is whether the shielded
  finalisation settles inside its bound without a second cancellation.
\<close>

definition guarded_stream ::
    "'a list \<Rightarrow> 'a stream_end \<Rightarrow> close_effect list \<Rightarrow> close_effect \<Rightarrow> bool \<Rightarrow> bool \<Rightarrow>
     'a list \<times> teardown list \<times> teardown_exit" where
  "guarded_stream chunks how closers native on_cancel_raises settles =
     (case how of
        StreamDone \<Rightarrow> (chunks, [], Passes)
      | StreamRaised e \<Rightarrow> (chunks, [], Raises e)
      | StreamCancelled c \<Rightarrow>
          (chunks,
           concat (map (close_quietly ''stream stage'') (enumerate 0 closers))
             @ close_quietly ''provider stream'' (0, native)
             @ finalize_quietly on_cancel_raises
             @ (if settles then [] else [LoggedTimeout]),
           Reraises c))"

fun attempt_of :: "teardown \<Rightarrow> (string \<times> nat) option" where
  "attempt_of (Closing what n) = Some (what, n)"
| "attempt_of Finalizing = Some (''finalize'', 0)"
| "attempt_of _ = None"

lemma attempts_closing:
  "List.map_filter attempt_of (concat (map (close_quietly what) stages))
     = map (\<lambda>(n, _). (what, n)) (filter (\<lambda>(_, effect). effect \<noteq> NoClose) stages)"
proof (induction stages)
  case (Cons s stages)
  then show ?case
    by (cases s; cases "snd s")
       (auto simp: map_filter_append close_quietly_def map_filter_simps)
qed (simp add: map_filter_simps)

text \<open>
  A disconnect always tears the run down in full: the stream, then every racing stage
  outermost first, then the provider's stream are each asked to close, then the run is
  finalised, in that order and whichever of them raises, and the cancellation that arrived is
  the one raised again; a stream that ends or raises on its own is passed through untouched.
\<close>

theorem disconnect_tears_down_in_order:
  "(case guarded_stream chunks how closers native on_cancel_raises settles of
      (out, actions, exit) \<Rightarrow>
        out = chunks
        \<and> (case how of
             StreamDone \<Rightarrow> actions = [] \<and> exit = Passes
           | StreamRaised e \<Rightarrow> actions = [] \<and> exit = Raises e
           | StreamCancelled c \<Rightarrow>
               exit = Reraises c
               \<and> List.map_filter attempt_of actions =
                   map (\<lambda>(n, _). (''stream stage'', n)) (filter (\<lambda>(_, effect). effect \<noteq> NoClose) (enumerate 0 closers))
                   @ (if native = NoClose then [] else [(''provider stream'', 0)])
                   @ [(''finalize'', 0)]))"
  by (cases how; cases native)
     (simp_all add: guarded_stream_def map_filter_append attempts_closing close_quietly_def
        finalize_quietly_def map_filter_simps)

end
