(* ===== verification/Subagents.thy ===== *)
theory Subagents
  imports Wire
begin

text \<open>
  \<open>agent/subagent_observer.py\<close> with the two builders it announces through,
  \<open>agent/subagent_lifecycle.py\<close> and \<open>agent/subagent_progress.py\<close>: what a delegation puts on
  the stream, on every way its tool call can end, and what a client that verifies the
  protocol's lifecycle makes of any number of delegations running side by side.

  A tool call runs in a task of its own with its own copy of the context, so the delegation a
  child's events belong to is an argument; the queue they are announced onto is shared, so the
  announcements of concurrent calls interleave. Timestamps are left out.
\<close>

section \<open>The two carriers\<close>

datatype phase = Started | Finished | Failed

definition subagent_run_id :: "string \<Rightarrow> string" where
  "subagent_run_id delegation_id = ''subagent-'' @ delegation_id"

definition subagent_lifecycle :: "string \<Rightarrow> ustr \<Rightarrow> phase \<Rightarrow> event" where
  "subagent_lifecycle delegation_id agent phase =
     (let run_id = subagent_run_id delegation_id in
      case phase of
        Started \<Rightarrow> SubagentStarted run_id agent delegation_id
      | Finished \<Rightarrow> SubagentFinished run_id
      | Failed \<Rightarrow> SubagentError run_id (agent @ ustr '' failed''))"

definition SUBAGENT_EVENT_NAME :: string where
  "SUBAGENT_EVENT_NAME = ''ag_ui.subagent''"

datatype step_phase = ToolCallStep | ToolResultStep

definition step_phase_name :: "step_phase \<Rightarrow> string" where
  "step_phase_name p = (case p of ToolCallStep \<Rightarrow> ''tool_call'' | ToolResultStep \<Rightarrow> ''tool_result'')"

definition subagent_progress ::
    "string \<Rightarrow> ustr \<Rightarrow> step_phase \<Rightarrow> ustr \<Rightarrow> string \<Rightarrow> string \<Rightarrow> bool option \<Rightarrow> event" where
  "subagent_progress delegation_id agent phase status tool_call_id tool_name ok =
     CustomEvent SUBAGENT_EVENT_NAME (fmap_of_list
       [(''delegationId'', JStr (ustr delegation_id)),
        (''agent'', JStr agent),
        (''phase'', JStr (ustr (step_phase_name phase))),
        (''status'', JStr status),
        (''tool'', JObj (fmap_of_list
           [(''toolCallId'', JStr (ustr tool_call_id)),
            (''name'', JStr (ustr tool_name)),
            (''ok'', (case ok of None \<Rightarrow> JNull | Some b \<Rightarrow> JBool b))]))])"

section \<open>The observer\<close>

record delegation =
  delegation_id :: string
  agent_name :: ustr

datatype result_part = RetryPart | ReturnPart string

datatype child_event =
    ChildToolCall string string
  | ChildToolResult string string result_part
  | ChildOther

text \<open>\<open>_emit\<close>: without a run streaming there is no queue, and nothing is announced.\<close>

definition emit :: "event \<Rightarrow> event list option \<Rightarrow> event list option" where
  "emit e sink = (case sink of None \<Rightarrow> None | Some queue \<Rightarrow> Some (queue @ [e]))"

definition lifecycle_event :: "delegation \<Rightarrow> phase \<Rightarrow> event" where
  "lifecycle_event d phase = subagent_lifecycle (delegation_id d) (agent_name d) phase"

definition child_progress :: "delegation \<Rightarrow> child_event \<Rightarrow> event option" where
  "child_progress d e =
     (case e of
        ChildToolCall call name \<Rightarrow>
          Some (subagent_progress (delegation_id d) (agent_name d) ToolCallStep
            (agent_name d @ ustr '': calling '' @ ustr name) call name None)
      | ChildToolResult call name part \<Rightarrow>
          (let ok = \<not> (part = RetryPart \<or> part = ReturnPart ''retried'');
               outcome = (if ok then ''returned'' else ''failed'')
           in Some (subagent_progress (delegation_id d) (agent_name d) ToolResultStep
            (agent_name d @ ustr '': '' @ ustr name @ ustr '' '' @ ustr outcome) call name (Some ok)))
      | ChildOther \<Rightarrow> None)"

fun forward_child_events ::
    "delegation option \<Rightarrow> child_event list \<Rightarrow> event list option \<Rightarrow> event list option" where
  "forward_child_events d [] sink = sink"
| "forward_child_events None (e # es) sink = forward_child_events None es sink"
| "forward_child_events (Some d) (e # es) sink =
     forward_child_events (Some d) es
       (case child_progress d e of None \<Rightarrow> sink | Some p \<Rightarrow> emit p sink)"

datatype 'r ending = Returns 'r | Raises string | IsCancelled

text \<open>
  What the hook is given: the call's own id and name, its arguments and the wrapped
  execution, which runs under the delegation it is told of and announces onto the queue.
  \<open>str_of\<close> is \<open>str\<close> of an argument that is not a string. The result is the queue, how the
  call ended and the delegation left bound on the task.
\<close>

definition delegation_of :: "(json \<Rightarrow> ustr) \<Rightarrow> string \<Rightarrow> dict \<Rightarrow> delegation" where
  "delegation_of str_of call args =
     \<lparr>delegation_id = call,
      agent_name = (case fmlookup args ''agent_name'' of
                      None \<Rightarrow> [] | Some (JStr s) \<Rightarrow> s | Some v \<Rightarrow> str_of v)\<rparr>"

definition wrap_tool_execute ::
    "(json \<Rightarrow> ustr) \<Rightarrow> string \<Rightarrow> string \<Rightarrow> string \<Rightarrow> dict \<Rightarrow>
     (delegation option \<Rightarrow> event list option \<Rightarrow> event list option \<times> 'r ending) \<Rightarrow>
     delegation option \<Rightarrow> event list option \<Rightarrow>
     event list option \<times> 'r ending \<times> delegation option" where
  "wrap_tool_execute str_of delegate_tool_name tool_name call args execute bound sink =
     (if tool_name \<noteq> delegate_tool_name then
        (case execute bound sink of (sink', result) \<Rightarrow> (sink', result, bound))
      else
        (let d = delegation_of str_of call args;
             sink1 = emit (lifecycle_event d Started) sink in
         case execute (Some d) sink1 of
           (sink2, Returns r) \<Rightarrow> (emit (lifecycle_event d Finished) sink2, Returns r, bound)
         | (sink2, failure) \<Rightarrow> (emit (lifecycle_event d Failed) sink2, failure, bound)))"

text \<open>\<open>_install_handler\<close>: the shape a wrapped capability is asked for.\<close>

record capability =
  has_event_stream_handler :: bool
  has_tool_name :: bool
  event_stream_handler :: "string option"

definition install_handler :: "capability \<Rightarrow> string \<Rightarrow> string + capability" where
  "install_handler wrapped handler =
     (if \<not> has_event_stream_handler wrapped \<or> \<not> has_tool_name wrapped then
        Inl ''no event_stream_handler / tool_name to observe''
      else if event_stream_handler wrapped \<noteq> None then Inl ''already set''
      else Inr (wrapped\<lparr>event_stream_handler := Some handler\<rparr>))"

section \<open>What one call announces\<close>

record observed_call =
  oc_tool :: string
  oc_id :: string
  oc_args :: dict
  oc_child :: "child_event list"
  oc_ends :: "unit ending"

definition observe_call ::
    "(json \<Rightarrow> ustr) \<Rightarrow> string \<Rightarrow> observed_call \<Rightarrow> delegation option \<Rightarrow> event list option \<Rightarrow>
     event list option \<times> unit ending \<times> delegation option" where
  "observe_call str_of tool c bound sink =
     wrap_tool_execute str_of tool (oc_tool c) (oc_id c) (oc_args c)
       (\<lambda>d queue. (forward_child_events d (oc_child c) queue, oc_ends c)) bound sink"

definition child_steps :: "(json \<Rightarrow> ustr) \<Rightarrow> observed_call \<Rightarrow> event list" where
  "child_steps str_of c =
     List.map_filter (child_progress (delegation_of str_of (oc_id c) (oc_args c))) (oc_child c)"

definition closing_phase :: "'r ending \<Rightarrow> phase" where
  "closing_phase e = (case e of Returns _ \<Rightarrow> Finished | _ \<Rightarrow> Failed)"

definition announcements :: "(json \<Rightarrow> ustr) \<Rightarrow> string \<Rightarrow> observed_call \<Rightarrow> event list" where
  "announcements str_of tool c =
     (if oc_tool c \<noteq> tool then []
      else lifecycle_event (delegation_of str_of (oc_id c) (oc_args c)) Started
        # child_steps str_of c
        @ [lifecycle_event (delegation_of str_of (oc_id c) (oc_args c)) (closing_phase (oc_ends c))])"

lemma forward_unbound: "forward_child_events None es sink = sink"
  by (induction es) simp_all

lemma forward_bound:
  "forward_child_events (Some d) es sink =
     map_option (\<lambda>q. q @ List.map_filter (child_progress d) es) sink"
  by (induction es arbitrary: sink)
     (auto simp: emit_def map_filter_simps option.map_ident split: option.splits)

text \<open>
  C21. Whatever ends the call - a result, an exception or a cancellation - the observer hands it
  on unchanged and leaves the delegation bound before it bound; a call of another tool announces
  nothing; a delegation announces its start, a step per tool call and per result of its child in
  their order, and then exactly one close, which is a failure unless the call returned. What the
  queue held before stays in front, and outside a run nothing is announced at all.
\<close>

theorem every_exit_closes_the_delegation:
  "observe_call str_of tool c None sink =
     (map_option (\<lambda>queue. queue @ announcements str_of tool c) sink, oc_ends c, None)"
  by (cases sink; cases "oc_ends c")
     (simp_all add: observe_call_def wrap_tool_execute_def announcements_def forward_unbound
       forward_bound emit_def closing_phase_def child_steps_def Let_def option.map_ident)

section \<open>Delegations running side by side\<close>

text \<open>The announcements of concurrent tasks reach the queue in any interleaving.\<close>

inductive interleaves :: "'a list list \<Rightarrow> 'a list \<Rightarrow> bool" where
  all_done: "list_all (\<lambda>t. t = []) ts \<Longrightarrow> interleaves ts []"
| one_moves: "i < length ts \<Longrightarrow> ts ! i = x # xs \<Longrightarrow> interleaves (ts[i := xs]) zs \<Longrightarrow>
    interleaves ts (x # zs)"

text \<open>
  The client's check, as \<open>subagent_lifecycle\<close> states it: a run id is opened once, a close
  needs an open run, and what is left open at the end is what \<open>RUN_FINISHED\<close> is refused for.
\<close>

fun client_check :: "string list \<Rightarrow> string list \<Rightarrow> event list \<Rightarrow> string list option" where
  "client_check used opened [] = Some opened"
| "client_check used opened (SubagentStarted r _ _ # es) =
     (if r \<in> set used then None else client_check (r # used) (r # opened) es)"
| "client_check used opened (SubagentFinished r # es) =
     (if r \<in> set opened then client_check used (removeAll r opened) es else None)"
| "client_check used opened (SubagentError r _ # es) =
     (if r \<in> set opened then client_check used (removeAll r opened) es else None)"
| "client_check used opened (_ # es) = client_check used opened es"

fun names_delegation :: "string \<Rightarrow> event \<Rightarrow> bool" where
  "names_delegation call (SubagentStarted r _ _) = (r = subagent_run_id call)"
| "names_delegation call (SubagentFinished r) = (r = subagent_run_id call)"
| "names_delegation call (SubagentError r _) = (r = subagent_run_id call)"
| "names_delegation call (CustomEvent _ d) = (fmlookup d ''delegationId'' = Some (JStr (ustr call)))"
| "names_delegation call _ = False"

lemma filter_interleaved:
  assumes "interleaves ts zs" and "i < length ts"
    and "list_all P (ts ! i)"
    and "\<And>j. j < length ts \<Longrightarrow> j \<noteq> i \<Longrightarrow> list_all (\<lambda>x. \<not> P x) (ts ! j)"
  shows "filter P zs = ts ! i"
  using assms
proof (induction arbitrary: i rule: interleaves.induct)
  case (all_done ts)
  then show ?case by (auto simp: list_all_length)
next
  case (one_moves k ts x xs zs)
  show ?case
  proof (cases "k = i")
    case True
    have "filter P zs = ts[k := xs] ! i"
      using one_moves.prems one_moves.hyps True
      by (intro one_moves.IH) auto
    with True one_moves show ?thesis by simp
  next
    case False
    have others: "list_all (\<lambda>x. \<not> P x) (x # xs)"
      using one_moves.prems(3) [of k] one_moves.hyps False by auto
    have "filter P zs = ts[k := xs] ! i"
      using one_moves.prems one_moves.hyps False others
      by (intro one_moves.IH) (auto simp: nth_list_update)
    with False others show ?thesis by simp
  qed
qed

lemma child_progress_names:
  "child_progress d e = Some p \<Longrightarrow> (\<exists>v. p = CustomEvent SUBAGENT_EVENT_NAME v) \<and>
     (names_delegation call p \<longleftrightarrow> delegation_id d = call)"
  by (auto simp: child_progress_def subagent_progress_def Let_def fmlookup_of_list
      split: child_event.splits)

lemma steps_name_their_call:
  "p \<in> set (child_steps str_of c) \<Longrightarrow> (\<exists>v. p = CustomEvent SUBAGENT_EVENT_NAME v) \<and>
     (names_delegation call p \<longleftrightarrow> oc_id c = call)"
proof -
  let ?d = "delegation_of str_of (oc_id c) (oc_args c)"
  assume "p \<in> set (child_steps str_of c)"
  then obtain e where "child_progress ?d e = Some p"
    by (auto simp: child_steps_def map_filter_mem)
  from child_progress_names [OF this] show ?thesis by (simp add: delegation_of_def)
qed

lemma subagent_run_id_inj [simp]: "subagent_run_id a = subagent_run_id b \<longleftrightarrow> a = b"
  by (simp add: subagent_run_id_def)

lemma lifecycle_names_its_call [simp]:
  "names_delegation call (lifecycle_event (delegation_of str_of c args) ph) \<longleftrightarrow> c = call"
  by (cases ph) (simp_all add: lifecycle_event_def subagent_lifecycle_def delegation_of_def Let_def)

lemma announcements_name_their_call:
  "list_all (\<lambda>e. names_delegation call e \<longleftrightarrow> oc_id c = call) (announcements str_of tool c)"
  using steps_name_their_call [of _ str_of c call]
  by (auto simp: announcements_def list_all_iff)

fun is_step :: "event \<Rightarrow> bool" where
  "is_step (CustomEvent _ _) = True"
| "is_step _ = False"

fun closes :: "string \<Rightarrow> event \<Rightarrow> bool" where
  "closes r (SubagentFinished r') = (r' = r)"
| "closes r (SubagentError r' _) = (r' = r)"
| "closes r _ = False"

definition runs_to_close :: "string \<Rightarrow> event list \<Rightarrow> bool" where
  "runs_to_close r t \<longleftrightarrow> (\<exists>steps close. t = steps @ [close] \<and> list_all is_step steps \<and> closes r close)"

definition thread_ok :: "string list \<Rightarrow> string list \<Rightarrow> string \<Rightarrow> event list \<Rightarrow> bool" where
  "thread_ok used opened r t \<longleftrightarrow>
     (if r \<in> set opened then runs_to_close r t
      else t = [] \<or> r \<notin> set used \<and>
        (\<exists>agent parent rest. t = SubagentStarted r agent parent # rest \<and> runs_to_close r rest))"

lemma runs_to_close_Nil [simp]: "\<not> runs_to_close r []"
  by (simp add: runs_to_close_def)

lemma runs_to_close_Cons:
  "runs_to_close r (x # xs) \<longleftrightarrow> xs = [] \<and> closes r x \<or> is_step x \<and> runs_to_close r xs"
proof
  assume "runs_to_close r (x # xs)"
  then obtain steps close where
    t: "x # xs = steps @ [close]" "list_all is_step steps" "closes r close"
    by (auto simp: runs_to_close_def)
  then show "xs = [] \<and> closes r x \<or> is_step x \<and> runs_to_close r xs"
    by (cases steps) (auto simp: runs_to_close_def)
next
  assume "xs = [] \<and> closes r x \<or> is_step x \<and> runs_to_close r xs"
  then show "runs_to_close r (x # xs)"
  proof
    assume "xs = [] \<and> closes r x"
    then show ?thesis by (auto simp: runs_to_close_def)
  next
    assume a: "is_step x \<and> runs_to_close r xs"
    then obtain steps close where "xs = steps @ [close]" "list_all is_step steps" "closes r close"
      by (auto simp: runs_to_close_def)
    with a have "x # xs = (x # steps) @ [close] \<and> list_all is_step (x # steps) \<and> closes r close"
      by simp
    then show ?thesis unfolding runs_to_close_def by blast
  qed
qed

text \<open>One event of a thread, as the client takes it: nothing changes for the other run ids.\<close>

lemma client_takes_thread_event:
  assumes "thread_ok used opened r (x # xs)"
  obtains used' opened' where
    "\<And>zs. client_check used opened (x # zs) = client_check used' opened' zs"
    "thread_ok used' opened' r xs"
    "\<And>q. q \<noteq> r \<Longrightarrow> (q \<in> set used' \<longleftrightarrow> q \<in> set used) \<and> (q \<in> set opened' \<longleftrightarrow> q \<in> set opened)"
proof (cases "r \<in> set opened")
  case True
  with assms consider (last) "xs = []" "closes r x" | (step) "is_step x" "runs_to_close r xs"
    by (auto simp: thread_ok_def runs_to_close_Cons)
  then show ?thesis
  proof cases
    case last
    with True show ?thesis
      by (cases x) (auto intro!: that [of used "removeAll r opened"] simp: thread_ok_def)
  next
    case step
    with True show ?thesis
      by (cases x) (auto intro!: that [of used opened] simp: thread_ok_def)
  qed
next
  case False
  with assms show ?thesis
    by (auto intro!: that [of "r # used" "r # opened"] simp: thread_ok_def)
qed

lemma check_interleaved:
  assumes "interleaves ts zs" and "length rs = length ts" and "distinct rs"
    and "\<And>i. i < length ts \<Longrightarrow> thread_ok used opened (rs ! i) (ts ! i)"
    and "set opened \<subseteq> set rs"
  shows "client_check used opened zs = Some []"
  using assms
proof (induction arbitrary: used opened rule: interleaves.induct)
  case (all_done ts)
  have "set opened = {}"
  proof (rule equals0I)
    fix r
    assume r: "r \<in> set opened"
    with all_done.prems(4) obtain j where j: "j < length ts" "rs ! j = r"
      using all_done.prems(1) by (metis in_set_conv_nth subsetD)
    with all_done.hyps have "ts ! j = []" by (simp add: list_all_length)
    with all_done.prems(3) [OF j(1)] j(2) r show False by (simp add: thread_ok_def)
  qed
  then show ?case by simp
next
  case (one_moves i ts x xs zs)
  let ?r = "rs ! i"
  have ok: "thread_ok used opened ?r (x # xs)"
    using one_moves.prems(3) [OF one_moves.hyps(1)] one_moves.hyps(2) by simp
  obtain used' opened' where taken: "\<And>zs. client_check used opened (x # zs) = client_check used' opened' zs"
    and own: "thread_ok used' opened' ?r xs"
    and others: "\<And>q. q \<noteq> ?r \<Longrightarrow> (q \<in> set used' \<longleftrightarrow> q \<in> set used) \<and> (q \<in> set opened' \<longleftrightarrow> q \<in> set opened)"
    using client_takes_thread_event [OF ok] by blast
  have member: "?r \<in> set rs" using one_moves.prems(1) one_moves.hyps(1) by simp
  have "client_check used' opened' zs = Some []"
  proof (rule one_moves.IH)
    fix j
    assume j: "j < length (ts[i := xs])"
    show "thread_ok used' opened' (rs ! j) (ts[i := xs] ! j)"
    proof (cases "j = i")
      case False
      with j have "rs ! j \<noteq> ?r" "thread_ok used opened (rs ! j) (ts ! j)"
        using one_moves.prems(1-3) one_moves.hyps(1) by (simp_all add: nth_eq_iff_index_eq)
      with False others [of "rs ! j"] show ?thesis by (simp add: thread_ok_def)
    qed (use own one_moves.hyps(1) in simp)
  next
    show "set opened' \<subseteq> set rs"
    proof
      fix q
      assume "q \<in> set opened'"
      with member others [of q] one_moves.prems(4) show "q \<in> set rs" by (cases "q = ?r") auto
    qed
  qed (use one_moves.prems(1,2) in simp_all)
  with taken show ?case by simp
qed

lemma announcements_form_a_thread:
  "thread_ok [] [] (subagent_run_id (oc_id c)) (announcements str_of tool c)"
proof (cases "oc_tool c = tool")
  case True
  let ?d = "delegation_of str_of (oc_id c) (oc_args c)"
  have "list_all is_step (child_steps str_of c)"
    using steps_name_their_call by (fastforce simp: list_all_iff)
  moreover have "closes (subagent_run_id (oc_id c)) (lifecycle_event ?d (closing_phase (oc_ends c)))"
    by (cases "oc_ends c")
       (simp_all add: closing_phase_def lifecycle_event_def subagent_lifecycle_def delegation_of_def Let_def)
  ultimately have "runs_to_close (subagent_run_id (oc_id c))
      (child_steps str_of c @ [lifecycle_event ?d (closing_phase (oc_ends c))])"
    unfolding runs_to_close_def by blast
  with True show ?thesis
    by (simp add: announcements_def thread_ok_def lifecycle_event_def [of _ Started]
        subagent_lifecycle_def [of _ _ Started] delegation_of_def [of _ "oc_id c"] Let_def)
qed (simp add: announcements_def thread_ok_def)


definition two_delegations :: "observed_call list" where
  "two_delegations =
     [\<lparr>oc_tool = ''d'', oc_id = ''1'', oc_args = fmempty, oc_child = [ChildToolCall ''c'' ''t''], oc_ends = IsCancelled\<rparr>,
      \<lparr>oc_tool = ''d'', oc_id = ''2'', oc_args = fmempty, oc_child = [], oc_ends = Returns ()\<rparr>]"


end
