(* ===== verification/Http.thy ===== *)
theory Http
  imports Wire
begin

text \<open>
  What every endpoint of the package shares: the request fields the views read, the
  answers they give, the authentication gate each of them starts with, the upload guard of
  \<open>persistence/capped_upload_handler.py\<close> and the limiter's answer. \<open>aauthorize\<close> and
  \<open>auth_error_response\<close> belong to \<open>django_spec_agents\<close>: the first is the parameter \<open>deny\<close>
  (the status to refuse with, if any), the second the answer \<open>AuthError\<close>.
\<close>

section \<open>Requests and answers\<close>

record upload =
  up_name :: string
  up_content_type :: "string option"
  up_bytes :: "nat list"

text \<open>
  \<open>rq_chunks\<close> is what the multipart parser feeds an upload handler, in order, when it is not
  stopped; \<open>rq_files\<close> the files it then finds, with the field each came under.
\<close>

record http_request =
  rq_method :: string
  rq_body :: ustr
  rq_query :: "string \<rightharpoonup> ustr"
  rq_chunks :: "nat list list"
  rq_files :: "(string \<times> upload) list"
  rq_user :: "string option"
  rq_remote_addr :: "string option"

datatype 'b response =
    AuthError nat
  | NotAllowed "string list"
  | JsonResponse nat "(string \<times> ustr) list" json
  | EmptyResponse nat
  | Serves "(string \<times> ustr) list" 'b

primrec status_of :: "'b response \<Rightarrow> nat" where
  "status_of (AuthError st) = st"
| "status_of (NotAllowed _) = 405"
| "status_of (JsonResponse st _ _) = st"
| "status_of (EmptyResponse st) = st"
| "status_of (Serves _ _) = 200"

definition json_obj :: "(string \<times> json) list \<Rightarrow> json" where
  "json_obj kvs = JObj (fmap_of_list kvs)"

definition error_json :: "nat \<Rightarrow> ustr \<Rightarrow> 'b response" where
  "error_json st words = JsonResponse st [] (json_obj [(''error'', JStr words)])"

text \<open>
  What a store may raise: the refusal of an anonymous request, which the views turn into a
  403, or anything else, which leaves the view as a server error.
\<close>

datatype raised = AnonymousOperation | Unhandled string

definition answer :: "(raised + 'b response) \<times> 's \<Rightarrow> (string + 'b response) \<times> 's" where
  "answer r =
     (case r of
        (Inl AnonymousOperation, s) \<Rightarrow> (Inr (AuthError 403), s)
      | (Inl (Unhandled e), s) \<Rightarrow> (Inl e, s)
      | (Inr resp, s) \<Rightarrow> (Inr resp, s))"

lemma answer_simps [simp]:
  "answer (Inl AnonymousOperation, s) = (Inr (AuthError 403), s)"
  "answer (Inl (Unhandled e), s) = (Inl e, s)"
  "answer (Inr resp, s) = (Inr resp, s)"
  by (simp_all add: answer_def)

section \<open>The gate\<close>

text \<open>
  Every view authenticates before it says anything about its route. What follows from it is
  proved once: two refused callers get the same answer whatever they asked for, and nothing
  happens on their behalf.
\<close>

locale gated_view =
  fixes deny :: "'rq \<Rightarrow> nat option"
    and serve :: "'rq \<Rightarrow> 's \<Rightarrow> (string + 'b response) \<times> 's"
  assumes gate: "deny rq = Some st \<Longrightarrow> serve rq s = (Inr (AuthError st), s)"
begin

lemma refused_answers_agree:
  "deny a = Some st \<Longrightarrow> deny b = Some st \<Longrightarrow> fst (serve a s) = fst (serve b s')"
  by (simp add: gate)

lemma refused_changes_nothing: "deny a = Some st \<Longrightarrow> snd (serve a s) = s"
  by (simp add: gate)

end

text \<open>
  Past the gate a view answers the methods it lists and no other: a request under another one
  is told which there are, before anything of the view is reached.
\<close>

locale routed_view = gated_view deny serve
  for deny :: "http_request \<Rightarrow> nat option"
    and serve :: "http_request \<Rightarrow> 's \<Rightarrow> (string + 'b response) \<times> 's" +
  fixes methods :: "string list"
  assumes wrong_method:
    "deny rq = None \<Longrightarrow> rq_method rq \<notin> set methods \<Longrightarrow> serve rq s = (Inr (NotAllowed methods), s)"
begin

lemma only_listed_methods_act:
  "snd (serve rq s) \<noteq> s \<Longrightarrow> deny rq = None \<and> rq_method rq \<in> set methods"
  using gate wrong_method by (cases "deny rq") (metis snd_conv not_None_eq)+

end

section \<open>The upload guard\<close>

record capped_upload_handler =
  max_bytes :: int
  exceeded :: bool
  received :: int

definition new_guard :: "int \<Rightarrow> capped_upload_handler" where
  "new_guard cap = \<lparr>max_bytes = cap, exceeded = False, received = 0\<rparr>"

text \<open>\<open>None\<close> stands for \<open>StopUpload\<close>, which ends the parse; otherwise the chunk passes.\<close>

definition receive_data_chunk ::
    "nat list \<Rightarrow> capped_upload_handler \<Rightarrow> nat list option \<times> capped_upload_handler" where
  "receive_data_chunk raw h =
     (let h1 = h\<lparr>received := received h + int (length raw)\<rparr> in
      if max_bytes h1 \<noteq> 0 \<and> received h1 > max_bytes h1
      then (None, h1\<lparr>exceeded := True\<rparr>)
      else (Some raw, h1))"

text \<open>The parse under the guard: what passed on to the next handler, and the guard after it.\<close>

fun parse_guarded ::
    "nat list list \<Rightarrow> capped_upload_handler \<Rightarrow> nat list list \<times> capped_upload_handler" where
  "parse_guarded [] h = ([], h)"
| "parse_guarded (c # cs) h =
     (case receive_data_chunk c h of
        (None, h') \<Rightarrow> ([], h')
      | (Some d, h') \<Rightarrow> (case parse_guarded cs h' of (ds, h'') \<Rightarrow> (d # ds, h'')))"

definition total_bytes :: "nat list list \<Rightarrow> int" where
  "total_bytes cs = int (length (concat cs))"

lemma total_bytes_simps [simp]:
  "total_bytes [] = 0" "total_bytes (c # cs) = int (length c) + total_bytes cs"
  by (simp_all add: total_bytes_def)

lemma total_bytes_nonneg [simp]: "0 \<le> total_bytes cs"
  by (simp add: total_bytes_def)

lemma parse_guarded_bound:
  assumes "parse_guarded cs h = (ds, h')" and "\<not> exceeded h"
    and "0 < max_bytes h \<longrightarrow> received h \<le> max_bytes h" and "0 \<le> max_bytes h"
  shows "prefix ds cs
    \<and> (exceeded h' \<longleftrightarrow> max_bytes h \<noteq> 0 \<and> received h + total_bytes cs > max_bytes h)
    \<and> (max_bytes h \<noteq> 0 \<longrightarrow> received h + total_bytes ds \<le> max_bytes h)
    \<and> (\<not> exceeded h' \<longrightarrow> ds = cs)"
  using assms
proof (induction cs arbitrary: h ds)
  case (Cons c cs)
  let ?n = "received h + int (length c)"
  show ?case
  proof (cases "max_bytes h \<noteq> 0 \<and> ?n > max_bytes h")
    case True
    with Cons.prems show ?thesis
      by (auto simp: receive_data_chunk_def Let_def) (smt (verit) total_bytes_nonneg)
  next
    case False
    obtain ds' where d: "parse_guarded cs (h\<lparr>received := ?n\<rparr>) = (ds', h')" "ds = c # ds'"
      using Cons.prems(1) False by (auto simp: receive_data_chunk_def Let_def split: prod.splits)
    with Cons.IH [OF d(1)] Cons.prems False show ?thesis
      by (auto simp: add.assoc)
  qed
qed auto

text \<open>The single file under a field, or \<open>None\<close> for none and for more than one.\<close>

definition single_file :: "string \<Rightarrow> http_request \<Rightarrow> upload option" where
  "single_file field rq =
     (case map snd (filter (\<lambda>f. fst f = field) (rq_files rq)) of [f] \<Rightarrow> Some f | _ \<Rightarrow> None)"

text \<open>
  \<open>_validate_type\<close>. \<open>repr_of\<close> is Python's \<open>repr\<close> of the declared type, which only the words
  of the answer hold.
\<close>

definition validate_type ::
    "(string option \<Rightarrow> ustr) \<Rightarrow> upload \<Rightarrow> string list \<Rightarrow> 'b response option" where
  "validate_type repr_of up allowed_types =
     (if allowed_types \<noteq> [] \<and> (case up_content_type up of None \<Rightarrow> [] | Some t \<Rightarrow> t) \<notin> set allowed_types
      then Some (error_json 415
        (ustr ''content type '' @ repr_of (up_content_type up) @ ustr '' is not allowed''))
      else None)"

section \<open>The limiter's answer\<close>

text \<open>
  \<open>_throttled\<close>, the same on the run endpoint and on the transcription endpoint: \<open>consume\<close> is
  the configured limiter, \<open>None\<close> without one.
\<close>

definition throttled ::
    "(http_request \<Rightarrow> 's \<Rightarrow> int option \<times> 's) option \<Rightarrow> http_request \<Rightarrow> 's \<Rightarrow> 'b response option \<times> 's" where
  "throttled throttle rq s =
     (case throttle of
        None \<Rightarrow> (None, s)
      | Some consume \<Rightarrow>
          (case consume rq s of
             (None, s') \<Rightarrow> (None, s')
           | (Some retry_after, s') \<Rightarrow>
               (Some (JsonResponse 429 [(''Retry-After'', decimal retry_after)]
                  (json_obj [(''error'', JStr (ustr ''rate limited'')), (''retry_after'', JInt retry_after)])), s')))"

end
