(* ===== verification/RunIndex.thy ===== *)
theory RunIndex
  imports Http
begin

text \<open>
  \<open>agent/runs_view.py\<close>: the index of the runs a client may resume or fork. The step store is
  third-party: \<open>list_runs rq\<close> is what the store built for a request lists (oldest first, as the
  harness documents) and \<open>latest_snapshot rq run\<close> the snapshot it holds for a run; either may
  raise. \<open>isoformat\<close> renders a recorded instant.
\<close>

section \<open>Records\<close>

datatype prompt_item = Words ustr | Media

datatype prompt_content = PromptText ustr | PromptItems "prompt_item list"

datatype history_part = UserPromptPart prompt_content | ToolReturnPart | OtherPart

type_synonym history_message = "history_part list"

record 't run_record =
  run_id :: string
  conversation_id :: "string option"
  parent_run_id :: "string option"
  started_at :: "'t option"

record snapshot =
  sn_run_id :: string
  sn_messages :: "history_message list"

section \<open>Previews\<close>

definition preview_limit :: nat where
  "preview_limit = 100"

definition ellipsis :: nat where
  "ellipsis = 8230"

fun join_words :: "ustr list \<Rightarrow> ustr" where
  "join_words [] = []"
| "join_words [w] = w"
| "join_words (w # v # ws) = w @ 32 # join_words (v # ws)"

fun words_of :: "prompt_item \<Rightarrow> ustr option" where
  "words_of (Words w) = Some w"
| "words_of Media = None"

definition prompt_text :: "prompt_content \<Rightarrow> ustr" where
  "prompt_text content =
     (case content of
        PromptText t \<Rightarrow> t
      | PromptItems items \<Rightarrow> join_words (List.map_filter words_of items))"

definition one_line :: "prompt_content \<Rightarrow> ustr option" where
  "one_line content =
     (let collapsed = join_words (split_words (prompt_text content)) in
      if collapsed = [] then None
      else if length collapsed \<le> preview_limit then Some collapsed
      else Some (rstrip (take preview_limit collapsed) @ [ellipsis]))"

definition answers_a_tool :: "history_message \<Rightarrow> bool" where
  "answers_a_tool m = list_ex (\<lambda>p. p = ToolReturnPart) m"

text \<open>
  The two loops run over the parts newest first; \<open>Some\<close> is a \<open>return\<close>. \<open>parts\<close> is what is
  left of the message \<open>whole\<close>.
\<close>

fun preview_parts :: "history_message \<Rightarrow> history_part list \<Rightarrow> ustr option option" where
  "preview_parts whole [] = None"
| "preview_parts whole (part # parts) =
     (case part of
        UserPromptPart content \<Rightarrow>
          (let preview = one_line content in
           if preview = None \<and> answers_a_tool whole then preview_parts whole parts
           else Some preview)
      | _ \<Rightarrow> preview_parts whole parts)"

fun preview_messages :: "history_message list \<Rightarrow> ustr option" where
  "preview_messages [] = None"
| "preview_messages (m # ms) =
     (case preview_parts m (rev m) of None \<Rightarrow> preview_messages ms | Some preview \<Rightarrow> preview)"

definition preview :: "snapshot \<Rightarrow> ustr option" where
  "preview s = preview_messages (rev (sn_messages s))"

section \<open>The index\<close>

definition newest :: "'r list \<Rightarrow> int \<Rightarrow> 'r list" where
  "newest runs limit =
     (if limit = 0 then runs
      else if 0 < limit then drop (length runs - nat limit) runs
      else drop (nat (- limit)) runs)"

definition opt_json :: "('a \<Rightarrow> json) \<Rightarrow> 'a option \<Rightarrow> json" where
  "opt_json f x = (case x of None \<Rightarrow> JNull | Some a \<Rightarrow> f a)"

definition run_to_json :: "('t \<Rightarrow> ustr) \<Rightarrow> 't run_record \<Rightarrow> snapshot option \<Rightarrow> json" where
  "run_to_json isoformat r s = json_obj
     [(''run_id'', JStr (ustr (run_id r))),
      (''thread_id'', opt_json (\<lambda>c. JStr (ustr c)) (conversation_id r)),
      (''parent_run_id'', opt_json (\<lambda>c. JStr (ustr c)) (parent_run_id r)),
      (''started_at'', opt_json (\<lambda>t. JStr (isoformat t)) (started_at r)),
      (''continuable'', JBool (s \<noteq> None)),
      (''preview'', (case s of None \<Rightarrow> JNull | Some sn \<Rightarrow> opt_json JStr (preview sn)))]"

fun index_rows ::
    "('t \<Rightarrow> ustr) \<Rightarrow> (string \<Rightarrow> raised + snapshot option) \<Rightarrow> 't run_record list \<Rightarrow> raised + json list" where
  "index_rows isoformat latest [] = Inr []"
| "index_rows isoformat latest (r # rs) =
     bind_result (latest (run_id r)) (\<lambda>s.
       bind_result (index_rows isoformat latest rs) (\<lambda>rows. Inr (run_to_json isoformat r s # rows)))"

definition list_index ::
    "('t \<Rightarrow> ustr) \<Rightarrow> (http_request \<Rightarrow> raised + 't run_record list) \<Rightarrow>
     (http_request \<Rightarrow> string \<Rightarrow> raised + snapshot option) \<Rightarrow> int \<Rightarrow> http_request \<Rightarrow> raised + unit response" where
  "list_index isoformat list_runs latest_snapshot limit rq =
     bind_result (list_runs rq) (\<lambda>runs.
       bind_result (index_rows isoformat (latest_snapshot rq) (newest runs limit)) (\<lambda>rows.
         Inr (JsonResponse 200 [] (json_obj [(''runs'', JList (rev rows))]))))"

definition runs_view ::
    "('t \<Rightarrow> ustr) \<Rightarrow> (http_request \<Rightarrow> nat option) \<Rightarrow> (http_request \<Rightarrow> raised + 't run_record list) \<Rightarrow>
     (http_request \<Rightarrow> string \<Rightarrow> raised + snapshot option) \<Rightarrow> int \<Rightarrow> http_request \<Rightarrow> 's \<Rightarrow>
     (string + unit response) \<times> 's" where
  "runs_view isoformat deny list_runs latest_snapshot limit rq s =
     (case deny rq of
        Some st \<Rightarrow> (Inr (AuthError st), s)
      | None \<Rightarrow>
          if rq_method rq \<noteq> ''GET'' then (Inr (NotAllowed [''GET'']), s)
          else answer (list_index isoformat list_runs latest_snapshot limit rq, s))"

declare runs_view_def [view_defs]

interpretation runs_gate:
  routed_view deny "runs_view isoformat deny list_runs latest_snapshot limit" "[''GET'']"
  for isoformat deny list_runs latest_snapshot limit
  by unfold_locales (simp_all add: view_defs)

section \<open>What a row says\<close>

lemma index_rows_ok:
  assumes "\<And>r. r \<in> set rs \<Longrightarrow> latest (run_id r) = Inr (snap r)"
  shows "index_rows isoformat latest rs = Inr (map (\<lambda>r. run_to_json isoformat r (snap r)) rs)"
  using assms by (induction rs) simp_all

lemma index_rows_agree:
  "(\<And>r. r \<in> set rs \<Longrightarrow> f (run_id r) = g (run_id r)) \<Longrightarrow>
     index_rows isoformat f rs = index_rows isoformat g rs"
  by (induction rs) simp_all

lemma length_newest: "0 < limit \<Longrightarrow> length (newest runs limit) \<le> nat limit"
  by (simp add: newest_def)

lemma newest_suffix: "suffix (newest runs limit) runs"
  by (auto simp: newest_def suffix_drop)

text \<open>
  The index answers with the newest \<open>limit\<close> runs of the store, newest first, one row per
  run whose \<open>continuable\<close> says whether that run has a snapshot; and it is bounded before
  anything is loaded: it reads the snapshots of those runs only, so whatever another run's
  snapshot is, or raises, leaves the answer as it is.
\<close>

theorem index_lists_newest_runs_first:
  assumes "deny rq = None" and "rq_method rq = ''GET''" and "0 < limit"
    and "list_runs rq = Inr runs"
    and "\<And>r. r \<in> set (drop (length runs - nat limit) runs) \<Longrightarrow>
      latest_snapshot rq (run_id r) = Inr (snap r)"
  shows "runs_view isoformat deny list_runs latest_snapshot limit rq s =
      (Inr (JsonResponse 200 [] (json_obj [(''runs'', JList
         (map (\<lambda>r. run_to_json isoformat r (snap r)) (take (nat limit) (rev runs))))])), s)"
proof -
  have "newest runs limit = drop (length runs - nat limit) runs"
    using assms(3) by (simp add: newest_def)
  moreover have "rev (drop (length runs - nat limit) runs) = take (nat limit) (rev runs)"
    by (simp add: rev_drop [symmetric] take_rev)
  ultimately show ?thesis
    using assms index_rows_ok [of "newest runs limit" "latest_snapshot rq" snap isoformat]
    by (simp add: runs_view_def list_index_def rev_map)
qed

section \<open>Previews are one short line\<close>

lemma join_words_eq_Nil: "join_words ws = [] \<longleftrightarrow> ws = [] \<or> ws = [[]]"
  by (cases ws rule: join_words.cases) auto

definition word :: "ustr \<Rightarrow> bool" where
  "word w \<longleftrightarrow> w \<noteq> [] \<and> list_all (\<lambda>c. \<not> is_space c) w"

lemma split_words_are_words: "list_all word (split_words t)"
proof (induction t rule: split_words.induct)
  case (1 t)
  let ?rest = "lstrip t"
  show ?case
  proof (cases "?rest = []")
    case True
    then show ?thesis by (simp add: split_words.simps [of t])
  next
    case False
    then have "\<not> is_space (hd ?rest)"
      by (metis hd_dropWhile lstrip_def)
    with False have "word (takeWhile (\<lambda>c. \<not> is_space c) ?rest)"
      by (cases ?rest) (auto simp: word_def list_all_iff dest: set_takeWhileD)
    with 1 [OF refl False] False show ?thesis
      by (simp add: split_words.simps [of t] Let_def)
  qed
qed

text \<open>A single line: every white space in it is one blank between two other characters.\<close>

fun one_spaced :: "bool \<Rightarrow> ustr \<Rightarrow> bool" where
  "one_spaced after_word [] = after_word"
| "one_spaced after_word (c # cs) =
     (if is_space c then after_word \<and> c = 32 \<and> one_spaced False cs else one_spaced True cs)"

lemma is_space_blank: "is_space 32"
  by (simp add: is_space_def)

lemma one_spaced_word: "word w \<Longrightarrow> one_spaced b (w @ cs) = one_spaced True cs"
proof (induction w arbitrary: b)
  case (Cons c w)
  then show ?case by (cases w) (simp_all add: word_def)
qed (simp add: word_def)

lemma one_spaced_join: "list_all word ws \<Longrightarrow> ws \<noteq> [] \<Longrightarrow> one_spaced b (join_words ws)"
proof (induction ws arbitrary: b rule: join_words.induct)
  case (2 w)
  then show ?case using one_spaced_word [of w b "[]"] by simp
next
  case (3 w v ws)
  then show ?case using one_spaced_word [of w b "32 # join_words (v # ws)"]
    by (simp add: is_space_blank)
qed simp


lemma one_spaced_take:
  "one_spaced b cs \<Longrightarrow> 0 < n \<Longrightarrow> cs \<noteq> [] \<Longrightarrow>
     one_spaced b (take n cs) \<or> (\<exists>q. take n cs = q @ [32] \<and> one_spaced b q)"
proof (induction cs arbitrary: b n)
  case (Cons c cs)
  show ?case
  proof (cases "n = 1 \<or> cs = []")
    case True
    with Cons.prems show ?thesis by (cases "is_space c") (auto split: if_splits)
  next
    case False
    with Cons.prems obtain k where n: "n = Suc k" "0 < k" by (cases n) auto
    show ?thesis
    proof (cases "is_space c")
      case True
      with Cons.prems have c: "b" "c = 32" "one_spaced False cs" by simp_all
      from Cons.IH [OF c(3) n(2)] False consider "one_spaced False (take k cs)"
        | q where "take k cs = q @ [32]" "one_spaced False q" by auto
      then show ?thesis
      proof cases
        case 1
        with n c True show ?thesis by simp
      next
        case 2
        then have "take n (c # cs) = (c # q) @ [32] \<and> one_spaced b (c # q)"
          using n c True by simp
        then show ?thesis by blast
      qed
    next
      case no: False
      with Cons.prems have c: "one_spaced True cs" by simp
      from Cons.IH [OF c n(2)] False consider "one_spaced True (take k cs)"
        | q where "take k cs = q @ [32]" "one_spaced True q" by auto
      then show ?thesis
      proof cases
        case 1
        with n no show ?thesis by simp
      next
        case 2
        then have "take n (c # cs) = (c # q) @ [32] \<and> one_spaced b (c # q)"
          using n no by simp
        then show ?thesis by blast
      qed
    qed
  qed
qed simp

lemma one_spaced_last: "one_spaced b cs \<Longrightarrow> cs \<noteq> [] \<Longrightarrow> \<not> is_space (last cs)"
  by (induction cs arbitrary: b) (auto split: if_splits)

lemma rstrip_ends_with_word: "cs \<noteq> [] \<Longrightarrow> \<not> is_space (last cs) \<Longrightarrow> rstrip cs = cs"
  by (cases cs rule: rev_cases) (simp_all add: rstrip_def)

lemma one_spaced_snoc: "one_spaced b cs \<Longrightarrow> \<not> is_space c \<Longrightarrow> one_spaced b (cs @ [c])"
  by (induction cs arbitrary: b) (auto split: if_splits)

lemma one_spaced_rstrip_take:
  assumes "one_spaced False cs" and "0 < n" and "cs \<noteq> []"
  shows "one_spaced False (rstrip (take n cs))"
  using one_spaced_take [OF assms]
proof
  assume a: "one_spaced False (take n cs)"
  then have "rstrip (take n cs) = take n cs"
    using assms by (intro rstrip_ends_with_word one_spaced_last) auto
  with a show ?thesis by simp
next
  assume "\<exists>q. take n cs = q @ [32] \<and> one_spaced False q"
  then obtain q where q: "take n cs = q @ [32]" "one_spaced False q" by blast
  then have "q \<noteq> []" by auto
  moreover have "rstrip (q @ [32]) = rstrip q" by (simp add: rstrip_def is_space_blank)
  ultimately show ?thesis
    using q one_spaced_last [OF q(2)] rstrip_ends_with_word [of q] by simp
qed

lemma ellipsis_no_space: "\<not> is_space ellipsis"
  by (simp add: is_space_def ellipsis_def)

lemma one_line_is_short:
  "case one_line content of None \<Rightarrow> True | Some p \<Rightarrow> length p \<le> preview_limit + 1 \<and> one_spaced False p"
proof -
  let ?ws = "split_words (prompt_text content)"
  let ?c = "join_words ?ws"
  have "one_spaced False ?c" if "?c \<noteq> []"
    using one_spaced_join [OF split_words_are_words, of "prompt_text content" False] that
    by (cases ?ws) auto
  moreover have "length (rstrip (take preview_limit ?c)) \<le> preview_limit"
    by (rule order_trans [OF length_rstrip_le]) simp
  ultimately show ?thesis
    using one_spaced_rstrip_take [of ?c preview_limit]
    by (auto simp: one_line_def Let_def preview_limit_def
        intro!: one_spaced_snoc ellipsis_no_space)
qed

section \<open>Which prompt a preview names\<close>

fun prompt_of :: "history_part \<Rightarrow> prompt_content option" where
  "prompt_of (UserPromptPart c) = Some c"
| "prompt_of _ = None"

definition newest_prompts :: "snapshot \<Rightarrow> (history_message \<times> prompt_content) list" where
  "newest_prompts s =
     concat (map (\<lambda>m. map (Pair m) (List.map_filter prompt_of (rev m))) (rev (sn_messages s)))"

definition a_tools_file :: "history_message \<times> prompt_content \<Rightarrow> bool" where
  "a_tools_file mc \<longleftrightarrow> one_line (snd mc) = None \<and> answers_a_tool (fst mc)"

definition first_named :: "(history_message \<times> prompt_content) list \<Rightarrow> ustr option" where
  "first_named ps = (case dropWhile a_tools_file ps of [] \<Rightarrow> None | mc # _ \<Rightarrow> one_line (snd mc))"

lemma first_named_parts:
  "first_named (map (Pair m) (List.map_filter prompt_of ps) @ rest) =
     (case preview_parts m ps of None \<Rightarrow> first_named rest | Some p \<Rightarrow> p)"
proof (induction ps)
  case (Cons p ps)
  then show ?case
    by (cases p) (auto simp: map_filter_simps first_named_def a_tools_file_def Let_def)
qed (simp add: map_filter_simps)

lemma first_named_messages:
  "preview_messages ms =
     first_named (concat (map (\<lambda>m. map (Pair m) (List.map_filter prompt_of (rev m))) ms))"
proof (induction ms)
  case Nil
  then show ?case by (simp add: first_named_def)
next
  case (Cons m ms)
  then show ?case by (simp add: first_named_parts split: option.split)
qed

text \<open>
  A run is named by the newest user prompt of its snapshot, passing over only the wordless
  ones in a message that answers a tool; and whatever was typed or pasted, the name is a single
  line of at most a hundred characters and the ellipsis, with single blanks between its words
  and none around them.
\<close>

theorem preview_names_newest_prompt:
  "preview s = first_named (newest_prompts s)
   \<and> (case preview s of None \<Rightarrow> True
      | Some p \<Rightarrow> length p \<le> preview_limit + 1 \<and> one_spaced False p)"
proof
  show named: "preview s = first_named (newest_prompts s)"
    by (simp add: preview_def newest_prompts_def first_named_messages)
  show "case preview s of None \<Rightarrow> True
      | Some p \<Rightarrow> length p \<le> preview_limit + 1 \<and> one_spaced False p"
    unfolding named first_named_def
    using one_line_is_short by (auto split: list.split)
qed

lemma index_lists_newest_runs_first_witness:
  "let run = (\<lambda>i. \<lparr>run_id = i, conversation_id = None, parent_run_id = None, started_at = None\<rparr>);
       rq = \<lparr>rq_method = ''GET'', rq_body = [], rq_query = Map.empty, rq_chunks = [], rq_files = [],
             rq_user = None, rq_remote_addr = None\<rparr>
   in runs_view (\<lambda>_ :: nat. []) (\<lambda>_. None) (\<lambda>_. Inr [run ''a'', run ''b''])
        (\<lambda>_ r. if r = ''b'' then Inr None else Inl AnonymousOperation) 1 rq () =
      (Inr (JsonResponse 200 [] (json_obj [(''runs'', JList [run_to_json (\<lambda>_. []) (run ''b'') None])])), ())"
proof -
  let ?run = "\<lambda>i. \<lparr>run_id = i, conversation_id = None, parent_run_id = None, started_at = None :: nat option\<rparr>"
  let ?rq = "\<lparr>rq_method = ''GET'', rq_body = [], rq_query = Map.empty, rq_chunks = [], rq_files = [],
             rq_user = None, rq_remote_addr = None\<rparr>"
  show ?thesis
    using index_lists_newest_runs_first [of "\<lambda>_. None" ?rq 1 "\<lambda>_. Inr [?run ''a'', ?run ''b'']" "[?run ''a'', ?run ''b'']"
        "\<lambda>_ r. if r = ''b'' then Inr None else Inl AnonymousOperation" "\<lambda>_. None" "\<lambda>_. []" "()"]
    by (simp add: Let_def)
qed

end
