(* ===== verification/ThreadIndex.thy ===== *)
theory ThreadIndex
  imports Http "HOL-Library.Multiset"
begin

text \<open>
  \<open>persistence/threads_view.py\<close> with the two converters of \<open>persistence/utils.py\<close>: listing,
  reading, renaming and deleting a user's threads, and putting the pushed activities back into
  a thread that is read. The conversation store is third-party and scopes by owner itself; its
  operations are the fields of \<open>conversation_store\<close>, over a store state \<open>'s\<close>. Pydantic's
  validation and dump of the stored rows are the parameters \<open>parse\<close> and \<open>dump\<close>, the JSON decoder
  is \<open>loads\<close> (\<open>None\<close> where it raises \<open>ValueError\<close>, \<open>TypeError\<close> or \<open>RecursionError\<close>).
\<close>

section \<open>The store\<close>

record 't conversation_meta =
  cm_thread_id :: string
  cm_title :: "ustr option"
  cm_updated_at :: "'t option"
  cm_preview :: "ustr option"

record conversation =
  cv_thread_id :: string
  cv_messages :: json

record ('s, 't) conversation_store =
  cs_list :: "http_request \<Rightarrow> int \<Rightarrow> 's \<Rightarrow> raised + 't conversation_meta list"
  cs_load :: "string \<Rightarrow> http_request \<Rightarrow> 's \<Rightarrow> raised + conversation option"
  cs_exists :: "string \<Rightarrow> http_request \<Rightarrow> 's \<Rightarrow> raised + bool"
  cs_rename :: "string \<Rightarrow> ustr \<Rightarrow> http_request \<Rightarrow> 's \<Rightarrow> (raised + unit) \<times> 's"
  cs_delete :: "string \<Rightarrow> http_request \<Rightarrow> 's \<Rightarrow> (raised + unit) \<times> 's"

section \<open>Rows\<close>

definition messages_from_jsonable :: "(json \<Rightarrow> message list option) \<Rightarrow> json \<Rightarrow> raised + message list" where
  "messages_from_jsonable parse raw =
     (case parse raw of None \<Rightarrow> Inl (Unhandled ''ValidationError'') | Some ms \<Rightarrow> Inr ms)"

definition nullable :: "('a \<Rightarrow> json) \<Rightarrow> 'a option \<Rightarrow> json" where
  "nullable f x = (case x of None \<Rightarrow> JNull | Some a \<Rightarrow> f a)"

definition meta_to_json :: "('t \<Rightarrow> ustr) \<Rightarrow> 't conversation_meta \<Rightarrow> json" where
  "meta_to_json isoformat m = json_obj
     [(''thread_id'', JStr (ustr (cm_thread_id m))),
      (''title'', nullable JStr (cm_title m)),
      (''updated_at'', nullable (\<lambda>t. JStr (isoformat t)) (cm_updated_at m)),
      (''preview'', nullable JStr (cm_preview m))]"

section \<open>The list limit\<close>

text \<open>
  \<open>int(raw)\<close> on a string: surrounding white space, one sign, decimal digits of any script (the
  parameter \<open>digit\<close>), single underscores between digits, and no more than 4300 digits.
\<close>

fun digits_value :: "(nat \<Rightarrow> nat option) \<Rightarrow> ustr \<Rightarrow> bool \<Rightarrow> nat \<Rightarrow> nat \<Rightarrow> (nat \<times> nat) option" where
  "digits_value digit [] after_digit places acc = (if after_digit then Some (places, acc) else None)"
| "digits_value digit (c # cs) after_digit places acc =
     (case digit c of
        Some d \<Rightarrow> digits_value digit cs True (places + 1) (acc * 10 + d)
      | None \<Rightarrow> if c = 95 \<and> after_digit then digits_value digit cs False places acc else None)"

definition py_int :: "(nat \<Rightarrow> nat option) \<Rightarrow> ustr \<Rightarrow> int option" where
  "py_int digit raw =
     (let t = strip raw;
          unsigned = (case t of c # cs \<Rightarrow> if c = 43 \<or> c = 45 then cs else t | [] \<Rightarrow> t);
          negative = (case t of c # cs \<Rightarrow> c = 45 | [] \<Rightarrow> False)
      in case digits_value digit unsigned False 0 0 of
           None \<Rightarrow> None
         | Some (places, n) \<Rightarrow>
             if places > 4300 then None else Some (if negative then - int n else int n))"

definition effective_limit :: "(nat \<Rightarrow> nat option) \<Rightarrow> http_request \<Rightarrow> int \<Rightarrow> int" where
  "effective_limit digit rq cap =
     (case rq_query rq ''limit'' of
        None \<Rightarrow> cap
      | Some raw \<Rightarrow>
          (case py_int digit raw of
             None \<Rightarrow> cap
           | Some requested \<Rightarrow> if requested < 1 then cap else min requested cap))"

section \<open>The new title\<close>

definition max_title_len :: nat where
  "max_title_len = 255"

definition parse_title :: "(ustr \<Rightarrow> json option) \<Rightarrow> http_request \<Rightarrow> ustr option" where
  "parse_title loads rq =
     (case loads (rq_body rq) of
        Some (JObj d) \<Rightarrow>
          (case fmlookup d ''title'' of
             Some (JStr title) \<Rightarrow>
               if strip title \<noteq> [] then Some (take max_title_len (strip title)) else None
           | _ \<Rightarrow> None)
      | _ \<Rightarrow> None)"

section \<open>Activities put back\<close>

record activity_event =
  ae_message_id :: string
  ae_type :: string
  ae_content :: dict

record thread_activity =
  ta_event :: activity_event
  ta_after :: "string option"

definition as_activity_message :: "activity_event \<Rightarrow> message" where
  "as_activity_message e = plain_message (ae_message_id e) (ActivityMsg (ae_type e) (ae_content e))"

record merge =
  mg_order :: "string list"
  mg_anchors :: "string \<rightharpoonup> string option"
  mg_events :: "string \<rightharpoonup> activity_event"

definition note_activity :: "string set \<Rightarrow> thread_activity \<Rightarrow> merge \<Rightarrow> merge" where
  "note_activity known a g =
     (let i = ae_message_id (ta_event a);
          g1 = (if mg_events g i = None then
                  g\<lparr>mg_order := mg_order g @ [i],
                    mg_anchors := (mg_anchors g)(i \<mapsto>
                      (case ta_after a of
                         None \<Rightarrow> None | Some m \<Rightarrow> if m \<in> known then Some m else None))\<rparr>
                else g)
      in g1\<lparr>mg_events := (mg_events g1)(i \<mapsto> ta_event a)\<rparr>)"

definition place :: "merge \<Rightarrow> string \<Rightarrow> message list \<times> (string \<rightharpoonup> message list) \<Rightarrow>
    message list \<times> (string \<rightharpoonup> message list)" where
  "place g i tf =
     (let materialised = as_activity_message (the (mg_events g i)) in
      case the (mg_anchors g i) of
        None \<Rightarrow> (fst tf @ [materialised], snd tf)
      | Some anchor \<Rightarrow> (fst tf, enqueue anchor materialised (snd tf)))"

definition with_activities :: "message list \<Rightarrow> thread_activity list \<Rightarrow> message list" where
  "with_activities messages activities =
     (let known = set (map msg_id messages);
          g = fold (note_activity known) activities
                \<lparr>mg_order = [], mg_anchors = Map.empty, mg_events = Map.empty\<rparr>;
          (trailing, following) = fold (place g) (mg_order g) ([], Map.empty)
      in concat (map (\<lambda>m. m # queued following (msg_id m)) messages) @ trailing)"

type_synonym activity_source =
  "string \<Rightarrow> message list \<Rightarrow> http_request \<Rightarrow> raised + thread_activity list"

definition merge_activities ::
    "activity_source option \<Rightarrow> string \<Rightarrow> message list \<Rightarrow> http_request \<Rightarrow> raised + message list" where
  "merge_activities source thread_id messages rq =
     (case source of
        None \<Rightarrow> Inr messages
      | Some activities_for \<Rightarrow>
          bind_result (activities_for thread_id messages rq) (\<lambda>activities.
            Inr (with_activities messages activities)))"

section \<open>The view\<close>

definition not_found :: "'b response" where
  "not_found = error_json 404 (ustr ''not found'')"

definition list_threads ::
    "('s, 't) conversation_store \<Rightarrow> ('t \<Rightarrow> ustr) \<Rightarrow> (nat \<Rightarrow> nat option) \<Rightarrow> int \<Rightarrow> http_request \<Rightarrow> 's \<Rightarrow>
     raised + unit response" where
  "list_threads store isoformat digit cap rq s =
     (if rq_method rq \<noteq> ''GET'' then Inr (NotAllowed [''GET''])
      else bind_result (cs_list store rq (effective_limit digit rq cap) s) (\<lambda>metas.
        Inr (JsonResponse 200 [] (json_obj [(''threads'', JList (map (meta_to_json isoformat) metas))]))))"

definition read_thread ::
    "('s, 't) conversation_store \<Rightarrow> (json \<Rightarrow> message list option) \<Rightarrow> (message list \<Rightarrow> json) \<Rightarrow>
     activity_source option \<Rightarrow> string \<Rightarrow> http_request \<Rightarrow> 's \<Rightarrow> raised + unit response" where
  "read_thread store parse dump source thread_id rq s =
     bind_result (cs_load store thread_id rq s) (\<lambda>conversation.
       case conversation of
         None \<Rightarrow> Inr not_found
       | Some c \<Rightarrow>
           bind_result (messages_from_jsonable parse (cv_messages c)) (\<lambda>messages.
             bind_result (merge_activities source thread_id messages rq) (\<lambda>merged.
               Inr (JsonResponse 200 [] (json_obj
                 [(''thread_id'', JStr (ustr (cv_thread_id c))), (''messages'', dump merged)])))))"

text \<open>
  Both spellings a row may hold are read and the protocol's is written, which is also what a
  thread without activities is answered with.
\<close>

definition stored_messages_to_wire ::
    "(json \<Rightarrow> message list option) \<Rightarrow> (message list \<Rightarrow> json) \<Rightarrow> json \<Rightarrow> raised + json" where
  "stored_messages_to_wire parse dump raw =
     bind_result (messages_from_jsonable parse raw) (\<lambda>messages. Inr (dump messages))"

lemma read_thread_serves_the_row:
  "read_thread store parse dump None thread_id rq s =
     bind_result (cs_load store thread_id rq s) (\<lambda>conversation.
       case conversation of
         None \<Rightarrow> Inr not_found
       | Some c \<Rightarrow>
           bind_result (stored_messages_to_wire parse dump (cv_messages c)) (\<lambda>wire.
             Inr (JsonResponse 200 [] (json_obj
               [(''thread_id'', JStr (ustr (cv_thread_id c))), (''messages'', wire)]))))"
  by (cases "cs_load store thread_id rq s")
    (auto simp: read_thread_def stored_messages_to_wire_def merge_activities_def messages_from_jsonable_def
      split: option.split)

definition rename_thread ::
    "('s, 't) conversation_store \<Rightarrow> (ustr \<Rightarrow> json option) \<Rightarrow> string \<Rightarrow> http_request \<Rightarrow> 's \<Rightarrow>
     (raised + unit response) \<times> 's" where
  "rename_thread store loads thread_id rq s =
     (case parse_title loads rq of
        None \<Rightarrow> (Inr (error_json 400 (ustr ''a non-empty 'title' is required'')), s)
      | Some title \<Rightarrow>
          (case cs_exists store thread_id rq s of
             Inl e \<Rightarrow> (Inl e, s)
           | Inr False \<Rightarrow> (Inr not_found, s)
           | Inr True \<Rightarrow>
               (case cs_rename store thread_id title rq s of
                  (Inl e, s') \<Rightarrow> (Inl e, s')
                | (Inr _, s') \<Rightarrow>
                    (Inr (JsonResponse 200 [] (json_obj
                       [(''thread_id'', JStr (ustr thread_id)), (''title'', JStr title)])), s'))))"

definition thread_detail ::
    "('s, 't) conversation_store \<Rightarrow> (json \<Rightarrow> message list option) \<Rightarrow> (message list \<Rightarrow> json) \<Rightarrow>
     activity_source option \<Rightarrow> (ustr \<Rightarrow> json option) \<Rightarrow> string \<Rightarrow> http_request \<Rightarrow> 's \<Rightarrow>
     (raised + unit response) \<times> 's" where
  "thread_detail store parse dump source loads thread_id rq s =
     (if rq_method rq = ''GET'' then (read_thread store parse dump source thread_id rq s, s)
      else if rq_method rq = ''PATCH'' then rename_thread store loads thread_id rq s
      else if rq_method rq = ''DELETE'' then
        (case cs_delete store thread_id rq s of
           (Inl e, s') \<Rightarrow> (Inl e, s')
         | (Inr _, s') \<Rightarrow> (Inr (EmptyResponse 204), s'))
      else (Inr (NotAllowed [''GET'', ''PATCH'', ''DELETE'']), s))"

definition threads_view ::
    "('s, 't) conversation_store \<Rightarrow> ('t \<Rightarrow> ustr) \<Rightarrow> (nat \<Rightarrow> nat option) \<Rightarrow> (json \<Rightarrow> message list option) \<Rightarrow>
     (message list \<Rightarrow> json) \<Rightarrow> activity_source option \<Rightarrow> (ustr \<Rightarrow> json option) \<Rightarrow> int \<Rightarrow>
     (http_request \<Rightarrow> nat option) \<Rightarrow> string option \<Rightarrow> http_request \<Rightarrow> 's \<Rightarrow>
     (string + unit response) \<times> 's" where
  "threads_view store isoformat digit parse dump source loads cap deny thread_id rq s =
     (case deny rq of
        Some st \<Rightarrow> (Inr (AuthError st), s)
      | None \<Rightarrow>
          (case thread_id of
             None \<Rightarrow> answer (list_threads store isoformat digit cap rq s, s)
           | Some t \<Rightarrow> answer (thread_detail store parse dump source loads t rq s)))"

declare threads_view_def [view_defs] list_threads_def [view_defs] thread_detail_def [view_defs]

interpretation threads_gate:
  routed_view deny "threads_view store isoformat digit parse dump source loads cap deny thread_id"
    "case thread_id of None \<Rightarrow> [''GET''] | Some _ \<Rightarrow> [''GET'', ''PATCH'', ''DELETE'']"
  for store :: "('s, 't) conversation_store" and isoformat digit parse dump source loads cap deny thread_id
  by unfold_locales (simp_all add: view_defs split: option.splits)

section \<open>Where the activities land\<close>

text \<open>
  The merge without its dictionaries: the ids in the order first named, the last event under an
  id, and the anchor of its first naming where the thread holds such a message.
\<close>

definition activity_id :: "thread_activity \<Rightarrow> string" where
  "activity_id a = ae_message_id (ta_event a)"

definition named_ids :: "thread_activity list \<Rightarrow> string list" where
  "named_ids as = rev (remdups (rev (map activity_id as)))"

definition last_event :: "thread_activity list \<Rightarrow> string \<Rightarrow> activity_event option" where
  "last_event as i = map_option ta_event (find_last (\<lambda>a. activity_id a = i) as)"

definition anchor_of :: "string set \<Rightarrow> thread_activity list \<Rightarrow> string \<Rightarrow> string option" where
  "anchor_of known as i =
     (case find (\<lambda>a. activity_id a = i) as of
        None \<Rightarrow> None
      | Some a \<Rightarrow> (case ta_after a of None \<Rightarrow> None | Some m \<Rightarrow> if m \<in> known then Some m else None))"

definition drawn :: "thread_activity list \<Rightarrow> string \<Rightarrow> message" where
  "drawn as i = as_activity_message (the (last_event as i))"

definition placed_at :: "message list \<Rightarrow> thread_activity list \<Rightarrow> string option \<Rightarrow> message list" where
  "placed_at messages as anchor =
     map (drawn as) (filter (\<lambda>i. anchor_of (set (map msg_id messages)) as i = anchor) (named_ids as))"

lemma named_ids_snoc:
  "named_ids (as @ [a]) =
     (if activity_id a \<in> activity_id ` set as then named_ids as else named_ids as @ [activity_id a])"
  by (simp add: named_ids_def)

lemma set_named_ids [simp]: "set (named_ids as) = activity_id ` set as"
  by (simp add: named_ids_def)

lemma distinct_named_ids [simp]: "distinct (named_ids as)"
  by (simp add: named_ids_def)

lemma last_event_snoc:
  "last_event (as @ [a]) i = (if activity_id a = i then Some (ta_event a) else last_event as i)"
  by (simp add: last_event_def find_last_def)

lemma last_event_None: "last_event as i = None \<longleftrightarrow> i \<notin> activity_id ` set as"
  by (auto simp: last_event_def find_last_def find_None_iff)

lemma find_append: "find p (xs @ ys) = (case find p xs of None \<Rightarrow> find p ys | Some x \<Rightarrow> Some x)"
  by (induction xs) simp_all

lemma anchor_of_snoc:
  "anchor_of known (as @ [a]) i =
     (if i \<in> activity_id ` set as then anchor_of known as i
      else if activity_id a = i then
        (case ta_after a of None \<Rightarrow> None | Some m \<Rightarrow> if m \<in> known then Some m else None)
      else None)"
proof (cases "find (\<lambda>b. activity_id b = i) as")
  case None
  then have "i \<notin> activity_id ` set as" by (auto simp: find_None_iff)
  with None show ?thesis by (simp add: anchor_of_def find_append split: option.split)
next
  case (Some b)
  then have "i \<in> activity_id ` set as" by (auto simp: find_Some_iff)
  with Some show ?thesis by (simp add: anchor_of_def find_append)
qed

lemma notes_collect:
  fixes as :: "thread_activity list"
  defines "g0 \<equiv> \<lparr>mg_order = [], mg_anchors = Map.empty, mg_events = Map.empty\<rparr>"
  shows "mg_order (fold (note_activity known) as g0) = named_ids as
    \<and> mg_events (fold (note_activity known) as g0) = last_event as
    \<and> (\<forall>i \<in> activity_id ` set as.
         mg_anchors (fold (note_activity known) as g0) i = Some (anchor_of known as i))"
proof (induction as rule: rev_induct)
  case Nil
  then show ?case
    by (simp add: g0_def named_ids_def last_event_def find_last_def fun_eq_iff)
next
  case (snoc a as)
  let ?g = "fold (note_activity known) as g0"
  have new: "mg_events ?g (activity_id a) = None \<longleftrightarrow> activity_id a \<notin> activity_id ` set as"
    using snoc last_event_None by simp
  show ?case
    using snoc new
    by (auto simp: note_activity_def [of _ _ ?g] Let_def activity_id_def [of a, symmetric]
        named_ids_snoc last_event_snoc anchor_of_snoc fun_eq_iff image_iff split: option.split)
qed

lemma placed_fold:
  assumes "\<And>i. i \<in> set is \<Longrightarrow> mg_anchors g i = Some (anchor i)"
  shows "fst (fold (place g) is (tr, fo)) =
      tr @ map (\<lambda>i. as_activity_message (the (mg_events g i))) (filter (\<lambda>i. anchor i = None) is)
    \<and> queued (snd (fold (place g) is (tr, fo))) m =
      queued fo m @ map (\<lambda>i. as_activity_message (the (mg_events g i))) (filter (\<lambda>i. anchor i = Some m) is)"
  using assms
proof (induction "is" arbitrary: tr fo)
  case (Cons i "is")
  then show ?case
    by (cases "anchor i") (auto simp: place_def [of g i] Let_def queued_enqueue)
qed simp

text \<open>
  C23. Putting the activities back implements the merge the client performs: after each stored
  message come the activities anchored to it, and at the end those whose anchor is missing or
  unknown to this thread, each id once, in the order the ids were first named, with the content
  of its last event; and when the stored ids are distinct nothing is lost and nothing is
  doubled, so the thread that is read holds every stored message and one message per activity.
\<close>

theorem with_activities_refines_merge:
  assumes "distinct (map msg_id messages)"
  shows "with_activities messages as =
      concat (map (\<lambda>m. m # placed_at messages as (Some (msg_id m))) messages)
        @ placed_at messages as None
    \<and> mset (with_activities messages as) = mset messages + mset (map (drawn as) (named_ids as))"
proof
  let ?known = "set (map msg_id messages)"
  let ?g = "fold (note_activity ?known) as \<lparr>mg_order = [], mg_anchors = Map.empty, mg_events = Map.empty\<rparr>"
  have g: "mg_order ?g = named_ids as" "mg_events ?g = last_event as"
      "\<And>i. i \<in> set (named_ids as) \<Longrightarrow> mg_anchors ?g i = Some (anchor_of ?known as i)"
    using notes_collect [of ?known as] by auto
  from placed_fold [OF g(3), of "named_ids as" "[]" Map.empty] g
  show eq: "with_activities messages as =
      concat (map (\<lambda>m. m # placed_at messages as (Some (msg_id m))) messages)
        @ placed_at messages as None"
    by (simp add: with_activities_def Let_def placed_at_def drawn_def [abs_def] case_prod_unfold)
  have anchored: "anchor_of ?known as i = None \<or> (\<exists>m \<in> set messages. anchor_of ?known as i = Some (msg_id m))" for i
    by (auto simp: anchor_of_def split: option.splits)
  have split: "mset (filter (\<lambda>i. anchor_of ?known as i = None) is)
      + mset (concat (map (\<lambda>m. filter (\<lambda>i. anchor_of ?known as i = Some (msg_id m)) is) messages)) = mset is" for "is"
  proof (induction "is")
    case Nil
    then show ?case by (induction messages) simp_all
  next
    case (Cons i "is")
    have "mset (concat (map (\<lambda>m. filter (\<lambda>i. anchor_of ?known as i = Some (msg_id m)) (i # is)) ms))
        = (if \<exists>m \<in> set ms. anchor_of ?known as i = Some (msg_id m) then {#i#} else {#})
          + mset (concat (map (\<lambda>m. filter (\<lambda>i. anchor_of ?known as i = Some (msg_id m)) is) ms))"
      if "distinct (map msg_id ms)" for ms
      using that by (induction ms) auto
    from this [OF assms] Cons anchored [of i] show ?case by auto
  qed
  have cm: "mset (concat (map (\<lambda>m. m # map f (h m)) ms)) = mset ms + image_mset f (mset (concat (map h ms)))"
    for f :: "string \<Rightarrow> message" and h and ms :: "message list"
    by (induction ms) simp_all
  show "mset (with_activities messages as) = mset messages + mset (map (drawn as) (named_ids as))"
    unfolding eq placed_at_def mset_append cm
    using split [of "named_ids as"]
    by (simp add: image_mset_union [symmetric] add.commute add.assoc del: image_mset_union)
qed

section \<open>What the store is asked for\<close>

lemma effective_limit_bounded:
  "effective_limit digit rq cap \<le> cap
    \<and> (effective_limit digit rq cap = cap \<or> 1 \<le> effective_limit digit rq cap)"
  by (auto simp: effective_limit_def split: option.split)

lemma parse_title_bounded:
  "parse_title loads rq = Some title \<Longrightarrow>
     title \<noteq> [] \<and> length title \<le> max_title_len \<and> \<not> list_all is_space title"
proof -
  assume a: "parse_title loads rq = Some title"
  then obtain raw where t: "title = take max_title_len (strip raw)" "strip raw \<noteq> []"
    by (auto simp: parse_title_def split: option.splits json.splits if_splits)
  then obtain c cs where c: "strip raw = c # cs" by (cases "strip raw") auto
  moreover have "\<not> is_space c"
  proof
    assume "is_space c"
    have "lstrip raw \<noteq> []" using t(2) by (auto simp: strip_def rstrip_def)
    then have "\<not> is_space (hd (lstrip raw))" by (simp add: lstrip_def hd_dropWhile)
    moreover have "prefix (strip raw) (lstrip raw)"
      by (simp add: strip_def rstrip_def prefix_def)
        (metis rev_append rev_rev_ident takeWhile_dropWhile_id)
    then have "hd (lstrip raw) = c" using c by (auto simp: prefix_def)
    ultimately show False using \<open>is_space c\<close> by simp
  qed
  ultimately show ?thesis using t by (simp add: max_title_len_def)
qed

text \<open>
  A rename reaches the store in one case only: a PATCH whose body decodes to an object with
  a title that is not blank, on a thread the store has; and what it stores then is not empty,
  not blank and at most 255 characters. In every other case the answer is the 400 or the 404
  that says why and the store is left as it was.
\<close>

theorem rename_stores_a_bounded_title:
  "case parse_title loads rq of
     None \<Rightarrow> rename_thread store loads thread_id rq s
       = (Inr (error_json 400 (ustr ''a non-empty 'title' is required'')), s)
   | Some title \<Rightarrow>
       title \<noteq> [] \<and> length title \<le> max_title_len \<and> \<not> list_all is_space title
       \<and> (case cs_exists store thread_id rq s of
            Inl e \<Rightarrow> rename_thread store loads thread_id rq s = (Inl e, s)
          | Inr False \<Rightarrow> rename_thread store loads thread_id rq s = (Inr not_found, s)
          | Inr True \<Rightarrow> snd (rename_thread store loads thread_id rq s)
              = snd (cs_rename store thread_id title rq s))"
  using parse_title_bounded [of loads rq]
  by (auto simp: rename_thread_def split: option.split sum.split bool.split prod.split)

lemma with_activities_refines_merge_witness:
  "let ms = [plain_message ''m1'' (SystemMsg []), plain_message ''m2'' (SystemMsg [])];
       act = (\<lambda>i ty after. \<lparr>ta_event = \<lparr>ae_message_id = i, ae_type = ty, ae_content = fmempty\<rparr>, ta_after = after\<rparr>);
       as = [act ''a'' ''old'' (Some ''m1''), act ''b'' ''x'' (Some ''m9''), act ''a'' ''new'' (Some ''m2'')]
   in with_activities ms as =
        [plain_message ''m1'' (SystemMsg []), plain_message ''a'' (ActivityMsg ''new'' fmempty),
         plain_message ''m2'' (SystemMsg []), plain_message ''b'' (ActivityMsg ''x'' fmempty)]"
proof -
  let ?ms = "[plain_message ''m1'' (SystemMsg []), plain_message ''m2'' (SystemMsg [])]"
  have "distinct (map msg_id ?ms)" by simp
  from with_activities_refines_merge [OF this] show ?thesis
    by (simp add: Let_def placed_at_def named_ids_def activity_id_def anchor_of_def drawn_def
        last_event_def find_last_def as_activity_message_def)
qed

end
