(* ===== verification/Uploads.thy ===== *)
theory Uploads
  imports Http
begin

text \<open>
  The two endpoints that take a file: \<open>persistence/attachments_view.py\<close>, which stores it, and
  \<open>persistence/transcribe_view.py\<close>, which has it transcribed. Both share the upload guard, the
  single-file rule and the type filter of \<open>Http\<close>. The attachment store, the transcription
  backend and the limiter are parameters over a state \<open>'s\<close>; \<open>as_is_null\<close> is the test
  \<open>isinstance(store, NullAttachmentStore)\<close>.
\<close>

section \<open>Attachments\<close>

record attachment_ref =
  at_id :: string
  at_name :: string
  at_mime :: string
  at_size :: int
  at_url :: "string option"

record opened_attachment =
  oa_ref :: attachment_ref
  oa_content :: "nat list"

record 's attachment_store =
  as_is_null :: bool
  as_save :: "upload \<Rightarrow> http_request \<Rightarrow> 's \<Rightarrow> (raised + attachment_ref) \<times> 's"
  as_open :: "string \<Rightarrow> http_request \<Rightarrow> 's \<Rightarrow> raised + opened_attachment option"
  as_delete :: "string \<Rightarrow> http_request \<Rightarrow> 's \<Rightarrow> (raised + unit) \<times> 's"

record upload_limits =
  max_upload_bytes :: int
  allowed_types :: "string list"

definition ref_to_json :: "attachment_ref \<Rightarrow> json" where
  "ref_to_json r = json_obj
     ([(''id'', JStr (ustr (at_id r))), (''name'', JStr (ustr (at_name r))),
       (''mime'', JStr (ustr (at_mime r))), (''size'', JInt (at_size r))]
      @ (case at_url r of None \<Rightarrow> [] | Some u \<Rightarrow> [(''url'', JStr (ustr u))]))"

text \<open>A carriage return and a line feed are the characters 13 and 10.\<close>

definition safe_filename :: "string \<Rightarrow> string" where
  "safe_filename name =
     (let kept = filter (\<lambda>c. c \<noteq> CHR 0x22 \<and> c \<noteq> CHR 0x0D \<and> c \<noteq> CHR 0x0A) name in
      if kept = [] then ''attachment'' else kept)"

record download =
  dl_content :: "nat list"
  dl_as_attachment :: bool
  dl_filename :: string
  dl_content_type :: string

definition download_response :: "opened_attachment \<Rightarrow> download response" where
  "download_response opened =
     Serves [(''X-Content-Type-Options'', ustr ''nosniff'')]
       \<lparr>dl_content = oa_content opened, dl_as_attachment = True,
        dl_filename = safe_filename (at_name (oa_ref opened)),
        dl_content_type = (if at_mime (oa_ref opened) = [] then ''application/octet-stream''
                           else at_mime (oa_ref opened))\<rparr>"

definition too_large :: "string \<Rightarrow> int \<Rightarrow> 'b response" where
  "too_large what cap =
     error_json 413 (ustr what @ ustr '' exceeds the '' @ decimal cap @ ustr ''-byte limit'')"

definition upload_attachment ::
    "(string option \<Rightarrow> ustr) \<Rightarrow> 's attachment_store \<Rightarrow> upload_limits \<Rightarrow> http_request \<Rightarrow> 's \<Rightarrow>
     (raised + download response) \<times> 's" where
  "upload_attachment repr_of store limits rq s =
     (if rq_method rq \<noteq> ''POST'' then (Inr (NotAllowed [''POST'']), s)
      else if as_is_null store then (Inr (error_json 410 (ustr ''attachments are disabled'')), s)
      else
          (let guard = snd (parse_guarded (rq_chunks rq) (new_guard (max_upload_bytes limits))) in
           if exceeded guard then (Inr (too_large ''file'' (max_upload_bytes limits)), s)
           else case single_file ''file'' rq of
             None \<Rightarrow> (Inr (error_json 400 (ustr ''a single file under the 'file' field is required'')), s)
           | Some up \<Rightarrow>
               (case validate_type repr_of up (allowed_types limits) of
                  Some rejection \<Rightarrow> (Inr rejection, s)
                | None \<Rightarrow>
                    (case as_save store up rq s of
                       (Inl e, s') \<Rightarrow> (Inl e, s')
                     | (Inr ref, s') \<Rightarrow> (Inr (JsonResponse 201 [] (ref_to_json ref)), s')))))"

definition attachment_detail ::
    "'s attachment_store \<Rightarrow> string \<Rightarrow> http_request \<Rightarrow> 's \<Rightarrow> (raised + download response) \<times> 's" where
  "attachment_detail store attachment_id rq s =
     (if rq_method rq = ''GET'' then
        (bind_result (as_open store attachment_id rq s) (\<lambda>opened.
           case opened of
             None \<Rightarrow> Inr (error_json 404 (ustr ''not found''))
           | Some oa \<Rightarrow> Inr (download_response oa)), s)
      else if rq_method rq = ''DELETE'' then
        (case as_delete store attachment_id rq s of
           (Inl e, s') \<Rightarrow> (Inl e, s')
         | (Inr _, s') \<Rightarrow> (Inr (EmptyResponse 204), s'))
      else (Inr (NotAllowed [''GET'', ''DELETE'']), s))"

definition attachments_view ::
    "(string option \<Rightarrow> ustr) \<Rightarrow> 's attachment_store \<Rightarrow> upload_limits \<Rightarrow> (http_request \<Rightarrow> nat option) \<Rightarrow>
     string option \<Rightarrow> http_request \<Rightarrow> 's \<Rightarrow> (string + download response) \<times> 's" where
  "attachments_view repr_of store limits deny attachment_id rq s =
     (case deny rq of
        Some st \<Rightarrow> (Inr (AuthError st), s)
      | None \<Rightarrow>
          (case attachment_id of
             None \<Rightarrow> answer (upload_attachment repr_of store limits rq s)
           | Some i \<Rightarrow> answer (attachment_detail store i rq s)))"

declare attachments_view_def [view_defs] upload_attachment_def [view_defs] attachment_detail_def [view_defs]

interpretation attachments_gate:
  routed_view deny "attachments_view repr_of store limits deny attachment_id"
    "case attachment_id of None \<Rightarrow> [''POST''] | Some _ \<Rightarrow> [''GET'', ''DELETE'']"
  for repr_of and store :: "'s attachment_store" and limits deny attachment_id
  by unfold_locales (simp_all add: view_defs split: option.splits)

section \<open>Transcription\<close>

text \<open>\<open>backend\<close> is \<open>None\<close> for the null backend; a real one returns the text or raises.\<close>

definition transcribe_view ::
    "(string option \<Rightarrow> ustr) \<Rightarrow> (upload \<Rightarrow> http_request \<Rightarrow> 's \<Rightarrow> (string + ustr) \<times> 's) option \<Rightarrow>
     (http_request \<Rightarrow> 's \<Rightarrow> int option \<times> 's) option \<Rightarrow> upload_limits \<Rightarrow> (http_request \<Rightarrow> nat option) \<Rightarrow>
     http_request \<Rightarrow> 's \<Rightarrow> (string + unit response) \<times> 's" where
  "transcribe_view repr_of backend throttle limits deny rq s =
     (case deny rq of
        Some st \<Rightarrow> (Inr (AuthError st), s)
      | None \<Rightarrow>
          if rq_method rq \<noteq> ''POST'' then (Inr (NotAllowed [''POST'']), s)
          else case backend of
            None \<Rightarrow> (Inr (error_json 410 (ustr ''transcription is disabled'')), s)
          | Some transcribe \<Rightarrow>
              (case throttled throttle rq s of
                 (Some refusal, s1) \<Rightarrow> (Inr refusal, s1)
               | (None, s1) \<Rightarrow>
                   (let guard = snd (parse_guarded (rq_chunks rq) (new_guard (max_upload_bytes limits))) in
                    if exceeded guard then (Inr (too_large ''audio'' (max_upload_bytes limits)), s1)
                    else case single_file ''audio'' rq of
                      None \<Rightarrow>
                        (Inr (error_json 400 (ustr ''a single file under the 'audio' field is required'')), s1)
                    | Some audio \<Rightarrow>
                        (case validate_type repr_of audio (allowed_types limits) of
                           Some rejection \<Rightarrow> (Inr rejection, s1)
                         | None \<Rightarrow>
                             (case transcribe audio rq s1 of
                                (Inl e, s2) \<Rightarrow> (Inl e, s2)
                              | (Inr words, s2) \<Rightarrow>
                                  (Inr (JsonResponse 200 [] (json_obj [(''text'', JStr words)])), s2))))))"

declare transcribe_view_def [view_defs]

interpretation transcribe_gate:
  routed_view deny "transcribe_view repr_of backend throttle limits deny" "[''POST'']"
  for repr_of backend throttle limits deny
  by unfold_locales (simp_all add: view_defs)

section \<open>What reaches the store and the backend\<close>

text \<open>A file the guard, the single-file rule and the type filter all let through.\<close>

definition acceptable :: "string \<Rightarrow> upload_limits \<Rightarrow> http_request \<Rightarrow> upload option" where
  "acceptable field limits rq =
     (if max_upload_bytes limits \<noteq> 0 \<and> total_bytes (rq_chunks rq) > max_upload_bytes limits then None
      else case map snd (filter (\<lambda>f. fst f = field) (rq_files rq)) of
        [up] \<Rightarrow>
          if allowed_types limits = []
             \<or> (case up_content_type up of None \<Rightarrow> [] | Some t \<Rightarrow> t) \<in> set (allowed_types limits)
          then Some up else None
      | _ \<Rightarrow> None)"

lemma new_guard_simps:
  "max_bytes (new_guard cap) = cap" "\<not> exceeded (new_guard cap)" "received (new_guard cap) = 0"
  by (simp_all add: new_guard_def)

lemma exceeded_iff:
  assumes "0 \<le> cap"
  shows "exceeded (snd (parse_guarded cs (new_guard cap))) \<longleftrightarrow> cap \<noteq> 0 \<and> total_bytes cs > cap"
proof -
  obtain ds h where p: "parse_guarded cs (new_guard cap) = (ds, h)" by fastforce
  from parse_guarded_bound [OF p] assms show ?thesis by (simp add: p new_guard_simps)
qed

lemma guard_stops_in_time:
  assumes "0 < cap"
  shows "total_bytes (fst (parse_guarded cs (new_guard cap))) \<le> cap"
proof -
  obtain ds h where p: "parse_guarded cs (new_guard cap) = (ds, h)" by fastforce
  from parse_guarded_bound [OF p] assms show ?thesis by (simp add: p new_guard_simps)
qed

lemma upload_saves_acceptable:
  assumes "0 \<le> max_upload_bytes limits"
  shows "snd (upload_attachment repr_of st limits rq s) =
    (if rq_method rq = ''POST'' \<and> \<not> as_is_null st then
       (case acceptable ''file'' limits rq of None \<Rightarrow> s | Some up \<Rightarrow> snd (as_save st up rq s))
     else s)"
  using assms exceeded_iff [OF assms(1), of "rq_chunks rq"]
  by (auto simp: upload_attachment_def acceptable_def single_file_def validate_type_def Let_def
      split: list.splits prod.splits sum.splits)

lemma snd_answer [simp]: "snd (answer r) = snd r"
  by (cases r; cases "fst r"; cases "projl (fst r)") (auto simp: answer_def split: raised.split)

text \<open>
  C24. A file reaches the attachment store exactly when the caller is let in, posts it, and it
  is the only file under its field, of an allowed type, in a body whose parts together keep
  within the cap; nothing else changes the store, and the guard never lets more bytes than the
  cap through to the parser, wherever the chunks are cut.
\<close>

theorem only_acceptable_uploads_are_stored:
  assumes "0 \<le> max_upload_bytes limits"
  shows "snd (attachments_view repr_of st limits deny None rq s) =
      (if deny rq = None \<and> rq_method rq = ''POST'' \<and> \<not> as_is_null st then
         (case acceptable ''file'' limits rq of
            None \<Rightarrow> s
          | Some up \<Rightarrow> snd (as_save st up rq s))
       else s)
    \<and> (max_upload_bytes limits = 0
       \<or> total_bytes (fst (parse_guarded (rq_chunks rq) (new_guard (max_upload_bytes limits))))
           \<le> max_upload_bytes limits)"
proof
  show "snd (attachments_view repr_of st limits deny None rq s) =
      (if deny rq = None \<and> rq_method rq = ''POST'' \<and> \<not> as_is_null st then
         (case acceptable ''file'' limits rq of None \<Rightarrow> s | Some up \<Rightarrow> snd (as_save st up rq s))
       else s)"
    using upload_saves_acceptable [OF assms, of repr_of st rq s]
    by (simp add: attachments_view_def split: option.split)
  show "max_upload_bytes limits = 0
       \<or> total_bytes (fst (parse_guarded (rq_chunks rq) (new_guard (max_upload_bytes limits))))
           \<le> max_upload_bytes limits"
    using guard_stops_in_time [of "max_upload_bytes limits"] assms by fastforce
qed

text \<open>
  A download is never shown inline and never sniffed, and its file name has no quote and no
  line break in it and is never empty, whatever name the file was uploaded under.
\<close>

theorem downloads_are_never_inline:
  "case download_response oa of
     Serves headers d \<Rightarrow>
       dl_as_attachment d \<and> (''X-Content-Type-Options'', ustr ''nosniff'') \<in> set headers
       \<and> dl_content d = oa_content oa \<and> dl_content_type d \<noteq> [] \<and> dl_filename d \<noteq> []
       \<and> set (dl_filename d) \<inter> {CHR 0x22, CHR 0x0D, CHR 0x0A} = {}
   | _ \<Rightarrow> False"
  by (auto simp: download_response_def safe_filename_def Let_def)

definition three_bytes :: "nat list list \<Rightarrow> http_request" where
  "three_bytes cs =
     \<lparr>rq_method = ''POST'', rq_body = [], rq_query = Map.empty, rq_chunks = cs,
      rq_files = [(''file'', \<lparr>up_name = ''n'', up_content_type = Some ''t'', up_bytes = [1, 2, 3]\<rparr>)],
      rq_user = None, rq_remote_addr = None\<rparr>"

definition counting_store :: "nat attachment_store" where
  "counting_store =
     \<lparr>as_is_null = False, as_save = (\<lambda>u _ n. (Inl AnonymousOperation, n + length (up_bytes u))),
      as_open = (\<lambda>_ _ _. Inr None), as_delete = (\<lambda>_ _ n. (Inr (), n))\<rparr>"

lemma only_acceptable_uploads_are_stored_witness:
  "snd (attachments_view (\<lambda>_. []) counting_store \<lparr>max_upload_bytes = 3, allowed_types = []\<rparr> (\<lambda>_. None) None
      (three_bytes [[1, 2], [3]]) 0) = 3
   \<and> snd (attachments_view (\<lambda>_. []) counting_store \<lparr>max_upload_bytes = 2, allowed_types = []\<rparr> (\<lambda>_. None) None
      (three_bytes [[1, 2], [3]]) 0) = 0"
  using only_acceptable_uploads_are_stored [of "\<lparr>max_upload_bytes = 3, allowed_types = []\<rparr>" "\<lambda>_. []"
      counting_store "\<lambda>_. None" "three_bytes [[1, 2], [3]]" 0]
    only_acceptable_uploads_are_stored [of "\<lparr>max_upload_bytes = 2, allowed_types = []\<rparr>" "\<lambda>_. []"
      counting_store "\<lambda>_. None" "three_bytes [[1, 2], [3]]" 0]
  by (simp add: acceptable_def three_bytes_def counting_store_def)

end
