(* ===== verification/ScopedStore.thy ===== *)
theory ScopedStore
  imports RunIndex
begin

text \<open>
  \<open>persistence/scoped_step_store.py\<close>: a step store partitioned by a scope name, which is put
  in front of every run id on the way in and taken off on the way out. The wrapped store is
  third-party (the harness protocol); \<open>step_store\<close> lists its operations over a store state
  \<open>'s\<close>, and the locale \<open>keyed_store\<close> states what the wrapper relies on: records are kept under
  their run id, and what is written under one run id is not read under another. The wrapper is
  shown to keep that contract, and the mounts it separates to be apart - as long as no scope
  holds a colon.
\<close>

section \<open>The protocol\<close>

record step_event =
  se_run_id :: string
  se_payload :: json

record tool_effect =
  te_run_id :: string
  te_call_id :: string
  te_payload :: json

record ('s, 't) step_store =
  register_run :: "'t run_record \<Rightarrow> 's \<Rightarrow> 's"
  get_run :: "string \<Rightarrow> 's \<Rightarrow> 't run_record option"
  list_runs :: "string option \<Rightarrow> string option \<Rightarrow> 's \<Rightarrow> 't run_record list"
  append_event :: "step_event \<Rightarrow> 's \<Rightarrow> 's"
  list_events :: "string \<Rightarrow> 's \<Rightarrow> step_event list"
  save_snapshot :: "snapshot \<Rightarrow> 's \<Rightarrow> 's"
  latest_snapshot :: "string \<Rightarrow> bool \<Rightarrow> 's \<Rightarrow> snapshot option"
  record_tool_effect :: "tool_effect \<Rightarrow> 's \<Rightarrow> 's"
  get_tool_effect :: "string \<Rightarrow> string \<Rightarrow> 's \<Rightarrow> tool_effect option"
  list_unresolved_tool_effects :: "string \<Rightarrow> 's \<Rightarrow> tool_effect list"

section \<open>The wrapper\<close>

definition key :: "string \<Rightarrow> string \<Rightarrow> string" where
  "key scope r = scope @ '':'' @ r"

definition mine :: "string \<Rightarrow> string \<Rightarrow> bool" where
  "mine scope r = prefix (scope @ '':'') r"

definition unkey :: "string \<Rightarrow> string \<Rightarrow> string" where
  "unkey scope r = (if mine scope r then drop (length scope + 1) r else r)"

definition run_in :: "string \<Rightarrow> 't run_record \<Rightarrow> 't run_record" where
  "run_in scope r = r\<lparr>run_id := key scope (run_id r)\<rparr>"

definition run_out :: "string \<Rightarrow> 't run_record \<Rightarrow> 't run_record" where
  "run_out scope r = r\<lparr>run_id := unkey scope (run_id r)\<rparr>"

definition event_in :: "string \<Rightarrow> step_event \<Rightarrow> step_event" where
  "event_in scope e = e\<lparr>se_run_id := key scope (se_run_id e)\<rparr>"

definition event_out :: "string \<Rightarrow> step_event \<Rightarrow> step_event" where
  "event_out scope e = e\<lparr>se_run_id := unkey scope (se_run_id e)\<rparr>"

definition snapshot_in :: "string \<Rightarrow> snapshot \<Rightarrow> snapshot" where
  "snapshot_in scope s = s\<lparr>sn_run_id := key scope (sn_run_id s)\<rparr>"

definition snapshot_out :: "string \<Rightarrow> snapshot \<Rightarrow> snapshot" where
  "snapshot_out scope s = s\<lparr>sn_run_id := unkey scope (sn_run_id s)\<rparr>"

definition effect_in :: "string \<Rightarrow> tool_effect \<Rightarrow> tool_effect" where
  "effect_in scope e = e\<lparr>te_run_id := key scope (te_run_id e)\<rparr>"

definition effect_out :: "string \<Rightarrow> tool_effect \<Rightarrow> tool_effect" where
  "effect_out scope e = e\<lparr>te_run_id := unkey scope (te_run_id e)\<rparr>"

definition scoped_store :: "string \<Rightarrow> ('s, 't) step_store \<Rightarrow> ('s, 't) step_store" where
  "scoped_store scope inner =
     \<lparr>register_run = (\<lambda>r. register_run inner (run_in scope r)),
      get_run = (\<lambda>r s. map_option (run_out scope) (get_run inner (key scope r) s)),
      list_runs = (\<lambda>parent conversation s.
        map (run_out scope) (filter (\<lambda>r. mine scope (run_id r)) (list_runs inner parent conversation s))),
      append_event = (\<lambda>e. append_event inner (event_in scope e)),
      list_events = (\<lambda>r s. map (event_out scope) (list_events inner (key scope r) s)),
      save_snapshot = (\<lambda>sn. save_snapshot inner (snapshot_in scope sn)),
      latest_snapshot = (\<lambda>r interrupted s.
        map_option (snapshot_out scope) (latest_snapshot inner (key scope r) interrupted s)),
      record_tool_effect = (\<lambda>e. record_tool_effect inner (effect_in scope e)),
      get_tool_effect = (\<lambda>r call s. map_option (effect_out scope) (get_tool_effect inner (key scope r) call s)),
      list_unresolved_tool_effects = (\<lambda>r s.
        map (effect_out scope) (list_unresolved_tool_effects inner (key scope r) s))\<rparr>"

text \<open>\<open>ScopedStepStore.__call__\<close>: a factory in, a factory out.\<close>

definition scoped_step_store ::
    "(http_request \<Rightarrow> ('s, 't) step_store) \<Rightarrow> string \<Rightarrow> http_request \<Rightarrow> ('s, 't) step_store" where
  "scoped_step_store inner scope rq = scoped_store scope (inner rq)"

section \<open>Keys\<close>

lemma mine_key [simp]: "mine scope (key scope r)"
  by (simp add: mine_def key_def)

lemma unkey_key [simp]: "unkey scope (key scope r) = r"
  by (simp add: unkey_def key_def mine_def)

lemma mine_iff: "mine scope k \<longleftrightarrow> (\<exists>r. k = key scope r)"
  by (auto simp: mine_def key_def prefix_def)

lemma key_inj [simp]: "key scope r = key scope r' \<longleftrightarrow> r = r'"
  by (simp add: key_def)

lemma key_unkey: "mine scope k \<Longrightarrow> key scope (unkey scope k) = k"
  by (auto simp: mine_iff)

text \<open>Two names without a colon are told apart by what stands in front of the first one.\<close>

definition colon_free :: "string \<Rightarrow> bool" where
  "colon_free scope \<longleftrightarrow> CHR '':'' \<notin> set scope"

lemma scope_of_key: "colon_free scope \<Longrightarrow> takeWhile (\<lambda>c. c \<noteq> CHR '':'') (key scope r) = scope"
  by (auto simp: colon_free_def key_def takeWhile_append2 intro: takeWhile_append2 [THEN trans])

lemma keys_apart:
  "colon_free a \<Longrightarrow> colon_free b \<Longrightarrow> a \<noteq> b \<Longrightarrow> key a r \<noteq> key b r'"
  by (metis scope_of_key)

lemma not_mine: "colon_free a \<Longrightarrow> colon_free b \<Longrightarrow> a \<noteq> b \<Longrightarrow> \<not> mine b (key a r)"
  by (metis mine_iff keys_apart)

lemma run_out_in [simp]: "run_out scope (run_in scope r) = r"
  by (simp add: run_out_def run_in_def)

lemma run_id_in [simp]: "run_id (run_in scope r) = key scope (run_id r)"
  by (simp add: run_in_def)

lemma event_ids [simp]: "se_run_id (event_in scope e) = key scope (se_run_id e)"
  "event_out scope (event_in scope e) = e"
  by (simp_all add: event_in_def event_out_def)

lemma snapshot_ids [simp]: "sn_run_id (snapshot_in scope e) = key scope (sn_run_id e)"
  "snapshot_out scope (snapshot_in scope e) = e"
  by (simp_all add: snapshot_in_def snapshot_out_def)

lemma effect_ids [simp]: "te_run_id (effect_in scope e) = key scope (te_run_id e)"
  "effect_out scope (effect_in scope e) = e"
  by (simp_all add: effect_in_def effect_out_def)

section \<open>The contract of a store\<close>

locale keyed_store =
  fixes store :: "('s, 't) step_store"
  assumes get_registered: "get_run store (run_id r) (register_run store r s) = Some r"
    and get_of_other: "run_id r \<noteq> k \<Longrightarrow> get_run store k (register_run store r s) = get_run store k s"
    and got_under_key: "get_run store k s = Some r \<Longrightarrow> run_id r = k"
    and listed_others: "filter (\<lambda>q. run_id q \<noteq> run_id r) (list_runs store p c (register_run store r s))
      = filter (\<lambda>q. run_id q \<noteq> run_id r) (list_runs store p c s)"
    and events_appended: "list_events store (se_run_id e) (append_event store e s)
      = list_events store (se_run_id e) s @ [e]"
    and events_of_other: "se_run_id e \<noteq> k \<Longrightarrow> list_events store k (append_event store e s) = list_events store k s"
    and snapshot_of_other: "sn_run_id n \<noteq> k \<Longrightarrow>
      latest_snapshot store k i (save_snapshot store n s) = latest_snapshot store k i s"
    and snapshot_under_key: "latest_snapshot store k i s = Some n \<Longrightarrow> sn_run_id n = k"
    and effect_of_other: "te_run_id f \<noteq> k \<Longrightarrow>
      get_tool_effect store k call (record_tool_effect store f s) = get_tool_effect store k call s"
    and unresolved_of_other: "te_run_id f \<noteq> k \<Longrightarrow>
      list_unresolved_tool_effects store k (record_tool_effect store f s)
        = list_unresolved_tool_effects store k s"
begin

lemmas others = get_of_other events_of_other snapshot_of_other effect_of_other unresolved_of_other

lemma scoped_listed_others:
  "filter (\<lambda>q. run_id q \<noteq> run_id r)
      (list_runs (scoped_store scope store) p c (register_run (scoped_store scope store) r s))
   = filter (\<lambda>q. run_id q \<noteq> run_id r) (list_runs (scoped_store scope store) p c s)"
proof -
  have push: "filter (\<lambda>q. run_id q \<noteq> run_id r) (map (run_out scope) (filter (\<lambda>q. mine scope (run_id q)) qs))
      = map (run_out scope) (filter (\<lambda>q. mine scope (run_id q))
          (filter (\<lambda>q. run_id q \<noteq> run_id (run_in scope r)) qs))" for qs :: "'t run_record list"
    by (induction qs) (auto simp: run_out_def mine_iff)
  show ?thesis
    by (simp only: scoped_store_def step_store.select_convs push listed_others)
qed

lemma scoped_keyed: "keyed_store (scoped_store scope store)"
proof
  fix r :: "'t run_record" and s
  show "get_run (scoped_store scope store) (run_id r) (register_run (scoped_store scope store) r s) = Some r"
    using get_registered [of "run_in scope r" s] by (simp add: scoped_store_def)
  show "filter (\<lambda>q. run_id q \<noteq> run_id r)
      (list_runs (scoped_store scope store) p c (register_run (scoped_store scope store) r s))
   = filter (\<lambda>q. run_id q \<noteq> run_id r) (list_runs (scoped_store scope store) p c s)" for p c
    by (rule scoped_listed_others)
  show "run_id r \<noteq> k \<Longrightarrow> get_run (scoped_store scope store) k (register_run (scoped_store scope store) r s)
      = get_run (scoped_store scope store) k s" for k
    by (simp add: scoped_store_def others)
  show "get_run (scoped_store scope store) k s = Some r \<Longrightarrow> run_id r = k" for k
    by (auto simp: scoped_store_def run_out_def dest!: got_under_key)
next
  fix e s
  show "list_events (scoped_store scope store) (se_run_id e) (append_event (scoped_store scope store) e s)
      = list_events (scoped_store scope store) (se_run_id e) s @ [e]"
    using events_appended [of "event_in scope e" s] by (simp add: scoped_store_def)
  show "se_run_id e \<noteq> k \<Longrightarrow> list_events (scoped_store scope store) k (append_event (scoped_store scope store) e s)
      = list_events (scoped_store scope store) k s" for k
    by (simp add: scoped_store_def others)
next
  fix n s k i
  show "sn_run_id n \<noteq> k \<Longrightarrow> latest_snapshot (scoped_store scope store) k i (save_snapshot (scoped_store scope store) n s)
      = latest_snapshot (scoped_store scope store) k i s"
    by (simp add: scoped_store_def others)
  show "latest_snapshot (scoped_store scope store) k i s = Some n \<Longrightarrow> sn_run_id n = k"
    by (auto simp: scoped_store_def snapshot_out_def dest!: snapshot_under_key)
next
  fix f k call s
  show "te_run_id f \<noteq> k \<Longrightarrow> get_tool_effect (scoped_store scope store) k call (record_tool_effect (scoped_store scope store) f s)
      = get_tool_effect (scoped_store scope store) k call s"
    by (simp add: scoped_store_def others)
  show "te_run_id f \<noteq> k \<Longrightarrow> list_unresolved_tool_effects (scoped_store scope store) k (record_tool_effect (scoped_store scope store) f s)
      = list_unresolved_tool_effects (scoped_store scope store) k s"
    by (simp add: scoped_store_def others)
qed

lemma scoped_list_apart:
  assumes "\<And>x. \<not> mine b (key a x)"
  shows "list_runs (scoped_store b store) p c (register_run (scoped_store a store) r s)
    = list_runs (scoped_store b store) p c s"
proof -
  have "filter (\<lambda>q. mine b (run_id q)) qs
      = filter (\<lambda>q. mine b (run_id q)) (filter (\<lambda>q. run_id q \<noteq> run_id (run_in a r)) qs)"
    for qs :: "'t run_record list"
    using assms by (induction qs) auto
  from this [of "list_runs store p c (register_run store (run_in a r) s)"]
    this [of "list_runs store p c s"]
  have "filter (\<lambda>q. mine b (run_id q)) (list_runs store p c (register_run store (run_in a r) s))
      = filter (\<lambda>q. mine b (run_id q)) (list_runs store p c s)"
    by (simp only: listed_others)
  then show ?thesis by (simp add: scoped_store_def)
qed

end

section \<open>A store that keeps the contract\<close>

text \<open>
  The contract as plain lists: runs oldest first and one per id, everything else in the order
  written. It is what the contract says and no more, not the store the harness ships.
\<close>

record 't ledger =
  lg_runs :: "'t run_record list"
  lg_events :: "step_event list"
  lg_snapshots :: "snapshot list"
  lg_effects :: "tool_effect list"

definition belongs :: "string option \<Rightarrow> string option \<Rightarrow> 't run_record \<Rightarrow> bool" where
  "belongs parent conversation r \<longleftrightarrow>
     (parent = None \<or> parent_run_id r = parent) \<and> (conversation = None \<or> conversation_id r = conversation)"

definition put_run :: "'t run_record \<Rightarrow> 't run_record list \<Rightarrow> 't run_record list" where
  "put_run r rs =
     (if list_ex (\<lambda>q. run_id q = run_id r) rs then map (\<lambda>q. if run_id q = run_id r then r else q) rs
      else rs @ [r])"

definition ledger_store :: "('t ledger, 't) step_store" where
  "ledger_store =
     \<lparr>register_run = (\<lambda>r l. l\<lparr>lg_runs := put_run r (lg_runs l)\<rparr>),
      get_run = (\<lambda>k l. find (\<lambda>r. run_id r = k) (lg_runs l)),
      list_runs = (\<lambda>p c l. filter (belongs p c) (lg_runs l)),
      append_event = (\<lambda>e l. l\<lparr>lg_events := lg_events l @ [e]\<rparr>),
      list_events = (\<lambda>k l. filter (\<lambda>e. se_run_id e = k) (lg_events l)),
      save_snapshot = (\<lambda>n l. l\<lparr>lg_snapshots := lg_snapshots l @ [n]\<rparr>),
      latest_snapshot = (\<lambda>k _ l. find_last (\<lambda>n. sn_run_id n = k) (lg_snapshots l)),
      record_tool_effect = (\<lambda>f l. l\<lparr>lg_effects := lg_effects l @ [f]\<rparr>),
      get_tool_effect = (\<lambda>k call l.
        find_last (\<lambda>f. te_run_id f = k \<and> te_call_id f = call) (lg_effects l)),
      list_unresolved_tool_effects = (\<lambda>k l. filter (\<lambda>f. te_run_id f = k) (lg_effects l))\<rparr>"

lemma find_put_run: "find (\<lambda>q. run_id q = run_id r) (put_run r rs) = Some r"
proof (cases "list_ex (\<lambda>q. run_id q = run_id r) rs")
  case True
  then have "find (\<lambda>q. run_id q = run_id r) (map (\<lambda>q. if run_id q = run_id r then r else q) rs) = Some r"
    by (induction rs) auto
  with True show ?thesis by (simp add: put_run_def)
next
  case False
  then have "find (\<lambda>q. run_id q = run_id r) (rs @ [r]) = Some r" by (induction rs) auto
  with False show ?thesis by (simp add: put_run_def)
qed

lemma find_put_other: "run_id r \<noteq> k \<Longrightarrow> find (\<lambda>q. run_id q = k) (put_run r rs) = find (\<lambda>q. run_id q = k) rs"
proof -
  assume k: "run_id r \<noteq> k"
  then have "find (\<lambda>q. run_id q = k) (map (\<lambda>q. if run_id q = run_id r then r else q) rs) = find (\<lambda>q. run_id q = k) rs"
    and "find (\<lambda>q. run_id q = k) (rs @ [r]) = find (\<lambda>q. run_id q = k) rs"
    by (induction rs) auto
  then show ?thesis by (simp add: put_run_def)
qed

lemma filter_put_run:
  "filter (\<lambda>q. run_id q \<noteq> run_id r) (put_run r rs) = filter (\<lambda>q. run_id q \<noteq> run_id r) rs"
proof -
  have "filter (\<lambda>q. run_id q \<noteq> run_id r) (map (\<lambda>q. if run_id q = run_id r then r else q) rs)
      = filter (\<lambda>q. run_id q \<noteq> run_id r) rs"
    by (induction rs) auto
  then show ?thesis by (simp add: put_run_def)
qed

lemma filter_commutes: "filter p (filter q xs) = filter q (filter p xs)"
  by (induction xs) auto

lemma ledger_keyed: "keyed_store (ledger_store :: ('t ledger, 't) step_store)"
proof
  fix r :: "'t run_record" and p c s
  show "filter (\<lambda>q. run_id q \<noteq> run_id r) (list_runs ledger_store p c (register_run ledger_store r s))
      = filter (\<lambda>q. run_id q \<noteq> run_id r) (list_runs ledger_store p c s)"
    by (simp add: ledger_store_def filter_put_run
        filter_commutes [of "\<lambda>q. run_id q \<noteq> run_id r" "belongs p c"] del: filter_filter)
qed (auto simp: ledger_store_def find_put_run find_put_other find_Some_iff find_last_def)

interpretation ledger: keyed_store ledger_store
  by (rule ledger_keyed)

interpretation scoped_ledger: keyed_store "scoped_store scope ledger_store" for scope
  by (rule ledger.scoped_keyed)

section \<open>Mounts are apart\<close>

text \<open>
  C25. Over any store that keeps the keyed contract the scoped store keeps it again: what a
  mount registers it gets back under the id it used, its events and snapshots are found under
  that id and no other, and no storage key is ever seen through it.
\<close>

theorem scoped_store_refines_contract:
  assumes "keyed_store inner"
  shows "keyed_store (scoped_store scope inner)"
  using assms by (rule keyed_store.scoped_keyed)

text \<open>
  C26. Two mounts whose scopes are different names without a colon do not see each other:
  whatever is registered, appended, saved or recorded through one, every read through the other
  - the run, the index, the events, the snapshot a resume starts from, the tool effects -
  answers as before.
\<close>

theorem colon_free_scopes_are_isolated:
  assumes "keyed_store inner" and "colon_free a" and "colon_free b" and "a \<noteq> b"
  defines "A \<equiv> scoped_store a inner" and "B \<equiv> scoped_store b inner"
  shows "get_run B k (register_run A r s) = get_run B k s
    \<and> list_runs B p c (register_run A r s) = list_runs B p c s
    \<and> list_events B k (append_event A e s) = list_events B k s
    \<and> latest_snapshot B k i (save_snapshot A n s) = latest_snapshot B k i s
    \<and> get_tool_effect B k call (record_tool_effect A f s) = get_tool_effect B k call s
    \<and> list_unresolved_tool_effects B k (record_tool_effect A f s) = list_unresolved_tool_effects B k s"
proof -
  note apart = keys_apart [OF assms(2-4)] not_mine [OF assms(2-4)]
  have "list_runs B p c (register_run A r s) = list_runs B p c s"
    unfolding A_def B_def by (rule keyed_store.scoped_list_apart [OF assms(1)]) (rule apart)
  then show ?thesis
    using keyed_store.others [OF assms(1)] apart by (simp add: A_def B_def scoped_store_def)
qed

text \<open>
  Nothing holds a colon out of a scope, and then the partition leaks: a run registered
  through the mount \<open>public\<close> under the id \<open>beta:r\<close>, which the client chooses, is in the index
  of the mount \<open>public:beta\<close> as its own run \<open>r\<close>, and can be resumed there.
\<close>

theorem colon_scopes_collide:
  "let r = \<lparr>run_id = ''beta:r'', conversation_id = None, parent_run_id = None, started_at = None :: nat option\<rparr>;
       n = \<lparr>sn_run_id = ''beta:r'', sn_messages = []\<rparr>;
       l = \<lparr>lg_runs = [], lg_events = [], lg_snapshots = [], lg_effects = []\<rparr>;
       l' = save_snapshot (scoped_store ''public'' ledger_store) n
              (register_run (scoped_store ''public'' ledger_store) r l)
   in list_runs (scoped_store ''public:beta'' ledger_store) None None l' = [r\<lparr>run_id := ''r''\<rparr>]
      \<and> latest_snapshot (scoped_store ''public:beta'' ledger_store) ''r'' False l'
          = Some (n\<lparr>sn_run_id := ''r''\<rparr>)"
  by (simp add: scoped_store_def ledger_store_def key_def mine_def unkey_def run_in_def run_out_def
      snapshot_in_def snapshot_out_def put_run_def belongs_def find_last_def)

lemma scoped_store_refines_contract_witness:
  "get_run (scoped_store ''a'' ledger_store) ''r'' (register_run (scoped_store ''a'' ledger_store)
      \<lparr>run_id = ''r'', conversation_id = None, parent_run_id = None, started_at = None :: nat option\<rparr>
      \<lparr>lg_runs = [], lg_events = [], lg_snapshots = [], lg_effects = []\<rparr>) =
    Some \<lparr>run_id = ''r'', conversation_id = None, parent_run_id = None, started_at = None\<rparr>"
  using keyed_store.get_registered [OF scoped_store_refines_contract [OF ledger_keyed], where r =
      "\<lparr>run_id = ''r'', conversation_id = None, parent_run_id = None, started_at = None :: nat option\<rparr>"]
  by simp

lemma colon_free_scopes_are_isolated_witness:
  "latest_snapshot (scoped_store ''b'' ledger_store) ''r'' False
     (save_snapshot (scoped_store ''a'' ledger_store) \<lparr>sn_run_id = ''r'', sn_messages = []\<rparr>
       \<lparr>lg_runs = [] :: nat run_record list, lg_events = [], lg_snapshots = [], lg_effects = []\<rparr>) = None"
  using colon_free_scopes_are_isolated [OF ledger_keyed, of "''a''" "''b''"]
  by (simp add: colon_free_def scoped_store_def ledger_store_def find_last_def key_def)

end
