(* ===== verification/Catalogs.thy ===== *)
theory Catalogs
  imports Http
begin

text \<open>
  The two read-only catalogs, \<open>agent/tools_view.py\<close> and \<open>skills/skills_view.py\<close>, with the
  skill registry of \<open>skills/skill_registry.py\<close> behind the second. The tool catalog itself is
  built by \<open>django_spec_agents\<close> and is the parameter \<open>catalog\<close>. The registry's dictionary keeps
  the order of registration: it is an association list, a new name at its end.
\<close>

section \<open>Skills\<close>

record skill_spec =
  sk_name :: string
  sk_title :: ustr
  sk_prompt :: "ustr option"
  sk_description :: "ustr option"
  sk_send_immediately :: bool
  sk_chip :: bool

type_synonym skill_registry = "(string \<times> skill_spec) list"

definition register_skill :: "skill_spec \<Rightarrow> skill_registry \<Rightarrow> string + skill_registry" where
  "register_skill spec reg =
     (if sk_name spec \<in> fst ` set reg then Inl (''ValueError: already registered '' @ sk_name spec)
      else Inr (reg @ [(sk_name spec, spec)]))"

definition add_skill ::
    "string \<Rightarrow> ustr \<Rightarrow> ustr option \<Rightarrow> ustr option \<Rightarrow> bool \<Rightarrow> bool \<Rightarrow> skill_registry \<Rightarrow> string + skill_registry" where
  "add_skill name title prompt description send_immediately chip reg =
     register_skill \<lparr>sk_name = name, sk_title = title, sk_prompt = prompt,
       sk_description = description, sk_send_immediately = send_immediately, sk_chip = chip\<rparr> reg"

definition skill_as_dict :: "skill_spec \<Rightarrow> (string \<times> json) list" where
  "skill_as_dict spec =
     [(''name'', JStr (ustr (sk_name spec))), (''title'', JStr (sk_title spec))]
     @ (case sk_prompt spec of None \<Rightarrow> [] | Some p \<Rightarrow> [(''prompt'', JStr p)])
     @ (case sk_description spec of None \<Rightarrow> [] | Some d \<Rightarrow> [(''description'', JStr d)])
     @ (if sk_send_immediately spec then [(''sendImmediately'', JBool True)] else [])
     @ (if sk_chip spec then [(''chip'', JBool True)] else [])"

definition skills_payload :: "skill_registry \<Rightarrow> json list" where
  "skills_payload reg = map (\<lambda>kv. json_obj (skill_as_dict (snd kv))) reg"

section \<open>The views\<close>

definition catalog_view ::
    "(http_request \<Rightarrow> nat option) \<Rightarrow> json list \<Rightarrow> http_request \<Rightarrow> 's \<Rightarrow> (string + unit response) \<times> 's" where
  "catalog_view deny catalog rq s =
     (case deny rq of
        Some st \<Rightarrow> (Inr (AuthError st), s)
      | None \<Rightarrow>
          if rq_method rq \<noteq> ''GET'' then (Inr (NotAllowed [''GET'']), s)
          else (Inr (JsonResponse 200 [] (JList catalog)), s))"

definition tools_view ::
    "(http_request \<Rightarrow> nat option) \<Rightarrow> json list \<Rightarrow> http_request \<Rightarrow> 's \<Rightarrow> (string + unit response) \<times> 's" where
  "tools_view deny catalog = catalog_view deny catalog"

definition skills_view ::
    "(http_request \<Rightarrow> nat option) \<Rightarrow> skill_registry \<Rightarrow> http_request \<Rightarrow> 's \<Rightarrow> (string + unit response) \<times> 's" where
  "skills_view deny reg = catalog_view deny (skills_payload reg)"

declare catalog_view_def [view_defs] tools_view_def [view_defs] skills_view_def [view_defs]

interpretation tools_gate: routed_view deny "tools_view deny catalog" "[''GET'']" for deny catalog
  by unfold_locales (simp_all add: view_defs)

interpretation skills_gate: routed_view deny "skills_view deny reg" "[''GET'']" for deny reg
  by unfold_locales (simp_all add: view_defs)

section \<open>Registration\<close>

fun register_skills :: "skill_spec list \<Rightarrow> skill_registry \<Rightarrow> string + skill_registry" where
  "register_skills [] reg = Inr reg"
| "register_skills (s # ss) reg = bind_result (register_skill s reg) (register_skills ss)"

lemma register_skills_Inr:
  "distinct (map fst reg) \<Longrightarrow>
   (\<exists>reg'. register_skills ss reg = Inr reg') \<longleftrightarrow> distinct (map fst reg @ map sk_name ss)"
proof (induction ss arbitrary: reg)
  case (Cons s ss)
  show ?case
  proof (cases "sk_name s \<in> fst ` set reg")
    case True
    then show ?thesis by (auto simp: register_skill_def)
  next
    case False
    with Cons.prems Cons.IH [of "reg @ [(sk_name s, s)]"] show ?thesis
      by (auto simp: register_skill_def)
  qed
qed simp

lemma register_skills_value:
  "register_skills ss reg = Inr reg' \<Longrightarrow> reg' = reg @ map (\<lambda>s. (sk_name s, s)) ss"
proof (induction ss arbitrary: reg)
  case (Cons s ss)
  then have "register_skills ss (reg @ [(sk_name s, s)]) = Inr reg'"
    by (auto simp: register_skill_def split: if_splits)
  from Cons.IH [OF this] show ?case by simp
qed simp

text \<open>
  A sequence of registrations goes through exactly when no name is taken twice, and the
  catalog then lists the skills in the order they were registered; and a prompt, a description
  or a flag left at its default is absent from the catalog rather than null, so the wording of
  a skill kept on the server never reaches a client.
\<close>

theorem skills_are_listed_as_registered:
  "(case register_skills specs [] of
      Inl _ \<Rightarrow> \<not> distinct (map sk_name specs)
    | Inr reg \<Rightarrow> distinct (map sk_name specs)
        \<and> skills_payload reg = map (\<lambda>s. json_obj (skill_as_dict s)) specs)
   \<and> distinct (map fst (skill_as_dict spec))
   \<and> (''prompt'' \<in> fst ` set (skill_as_dict spec) \<longleftrightarrow> sk_prompt spec \<noteq> None)
   \<and> JNull \<notin> snd ` set (skill_as_dict spec)"
proof -
  have "case register_skills specs [] of
      Inl _ \<Rightarrow> \<not> distinct (map sk_name specs)
    | Inr reg \<Rightarrow> distinct (map sk_name specs)
        \<and> skills_payload reg = map (\<lambda>s. json_obj (skill_as_dict s)) specs"
  proof (cases "register_skills specs []")
    case (Inl e)
    with register_skills_Inr [of "[]" specs] show ?thesis by simp
  next
    case (Inr reg)
    with register_skills_Inr [of "[]" specs] register_skills_value [OF Inr] show ?thesis
      by (auto simp: skills_payload_def comp_def)
  qed
  then show ?thesis by (auto simp: skill_as_dict_def split: option.split)
qed

end
