(* ===== verification/AgentSession.thy ===== *)
theory AgentSession
  imports StreamedIds LendStored ContinuedHistory StripBinary StreamFilters Context Http
begin

text \<open>
  \<open>agent/agent_session.py\<close>: one run between the transport and the agent. It composes the
  other components: the filters and injectors the events pass through, the transcript that
  records them, and the three exits a run is persisted on - completed, failed and cancelled.

  Pydantic-ai's adapter is a parameter: \<open>ad_loads\<close>, \<open>ad_dump\<close> and \<open>ad_pending\<close> are its
  conversions, and the adapter's run is the list of moments it goes through, in the order the
  session sees them: an event handed on, or the call of \<open>on_complete\<close> with the new messages of
  the result. What a run does on the outside is the list of its effects: rows saved, runs
  audited. Durations are left out of the audit record.
\<close>

section \<open>A session\<close>

record adapter =
  ad_loads :: "message \<Rightarrow> model_message list"
  ad_dump :: "model_message list \<Rightarrow> message list"
  ad_pending :: "model_message list \<Rightarrow> string list"

datatype delivery = ToInstructions | ToTool

record session_config =
  forward_reasoning :: bool
  approval_prompts :: "(string \<times> ustr) list"
  include_detail :: bool
  run_context :: run_context_config
  delivery_of :: delivery

record 'tool session =
  ss_thread_id :: string
  ss_run_id :: string
  ss_posted :: "message list"
  ss_context :: "context_item list"
  ss_history :: "model_message list option"
  ss_source :: "message list option"
  ss_instructions :: "ustr option"
  ss_toolsets :: "'tool list option"
  ss_config :: session_config
  ss_persists :: bool
  ss_owner :: "string option"
  ss_session_key :: "string option"
  ss_ip :: "string option"

section \<open>What the model is told\<close>

text \<open>
  The operator's instructions are a string and the client's block a callable, which keeps it
  behind the static text; \<open>None\<close> stands for no instructions. A tool of the endpoint, or the one
  \<open>build_client_context_toolset\<close> adds, which returns its block.
\<close>

datatype instruction = Operator ustr | ClientBlock ustr

datatype 'tool run_tool = EndpointTool 'tool | ClientContextTool ustr

definition client_context_tool_name :: string where
  "client_context_tool_name = ''get_client_context''"

fun call_client_context :: "'tool run_tool \<Rightarrow> ustr option" where
  "call_client_context (ClientContextTool block) = Some block"
| "call_client_context (EndpointTool _) = None"

definition client_context_block :: "'tool session \<Rightarrow> ustr option" where
  "client_context_block s =
     build_untrusted_context (run_context (ss_config s)) (ss_context s) (ss_posted s)"

definition operator_only :: "'tool session \<Rightarrow> instruction list option" where
  "operator_only s = map_option (\<lambda>t. [Operator t]) (ss_instructions s)"

definition run_instructions :: "'tool session \<Rightarrow> instruction list option" where
  "run_instructions s =
     (if delivery_of (ss_config s) \<noteq> ToInstructions then operator_only s
      else case client_context_block s of
        None \<Rightarrow> operator_only s
      | Some block \<Rightarrow>
          (case ss_instructions s of
             None \<Rightarrow> Some [ClientBlock block]
           | Some t \<Rightarrow> Some [Operator t, ClientBlock block]))"

definition run_toolsets :: "'tool session \<Rightarrow> 'tool run_tool list option" where
  "run_toolsets s =
     (if delivery_of (ss_config s) \<noteq> ToTool then map_option (map EndpointTool) (ss_toolsets s)
      else case client_context_block s of
        None \<Rightarrow> map_option (map EndpointTool) (ss_toolsets s)
      | Some block \<Rightarrow>
          Some (map EndpointTool (case ss_toolsets s of None \<Rightarrow> [] | Some ts \<Rightarrow> ts)
                @ [ClientContextTool block]))"

section \<open>What is stored\<close>

definition prior_messages :: "adapter \<Rightarrow> 'tool session \<Rightarrow> message list" where
  "prior_messages ad s =
     (case ss_history s of
        None \<Rightarrow> ss_posted s
      | Some history \<Rightarrow>
          (case continued_history (ad_loads ad) (\<lambda>m. ad_dump ad [m]) (ad_pending ad) history (ss_posted s) of
             (kept_history, new_turn) \<Rightarrow>
               (let dumped = strip_binary_content (dump_messages (ad_dump ad) kept_history);
                    kept = (case ss_source s of
                              None \<Rightarrow> dumped
                            | Some source \<Rightarrow>
                                if source = [] then dumped
                                else lend_stored_ids dumped source (set (map msg_id new_turn)))
                in kept @ new_turn)))"

record row =
  row_thread_id :: string
  row_messages :: "message list"
  row_owner_id :: "string option"

record audit_event =
  au_tool_name :: string
  au_arguments :: json
  au_success :: bool
  au_error :: ustr
  au_ip_address :: "string option"

datatype effect = Saved row | Audited audit_event

text \<open>
  \<open>_owner_id\<close>: \<open>anonymous_owner\<close> is the substrate's scope for a browser session
  (\<open>resolve_owner_id\<close>), which is only asked for when there is a session key.
\<close>

definition owner_id :: "(string \<Rightarrow> string option) \<Rightarrow> 'tool session \<Rightarrow> string option" where
  "owner_id anonymous_owner s =
     (case ss_owner s of
        Some i \<Rightarrow> Some i
      | None \<Rightarrow> (case ss_session_key s of None \<Rightarrow> None | Some k \<Rightarrow> anonymous_owner k))"

text \<open>
  \<open>_message_saver\<close>. \<open>refuses\<close> says what the store raises for a row, if anything: a refused
  anonymous write is swallowed, anything else is the second component.
\<close>

definition save_messages ::
    "(string \<Rightarrow> string option) \<Rightarrow> (row \<Rightarrow> raised option) \<Rightarrow> 'tool session \<Rightarrow> message list \<Rightarrow>
     effect list \<times> string option" where
  "save_messages anonymous_owner refuses s ms =
     (let r = \<lparr>row_thread_id = ss_thread_id s, row_messages = ms, row_owner_id = owner_id anonymous_owner s\<rparr>
      in case refuses r of
           None \<Rightarrow> ([Saved r], None)
         | Some AnonymousOperation \<Rightarrow> ([], None)
         | Some (Unhandled e) \<Rightarrow> ([], Some e))"

definition on_complete ::
    "adapter \<Rightarrow> (string \<Rightarrow> string option) \<Rightarrow> (row \<Rightarrow> raised option) \<Rightarrow> 'tool session \<Rightarrow> transcript \<Rightarrow>
     model_message list \<Rightarrow> effect list \<times> string option" where
  "on_complete ad anonymous_owner refuses s t new_messages =
     (if \<not> ss_persists s then ([], None)
      else (let dumped = dump_messages (ad_dump ad) new_messages;
                new = strip_binary_content (with_streamed_ids t dumped)
            in save_messages anonymous_owner refuses s (prior_messages ad s @ new)))"

definition run_ref :: "'tool session \<Rightarrow> json" where
  "run_ref s = json_obj [(''run_id'', JStr (ustr (ss_run_id s))), (''thread_id'', JStr (ustr (ss_thread_id s)))]"

definition finalize ::
    "adapter \<Rightarrow> (string \<Rightarrow> string option) \<Rightarrow> (row \<Rightarrow> raised option) \<Rightarrow> 'tool session \<Rightarrow> transcript \<Rightarrow>
     ustr \<Rightarrow> effect list \<times> string option" where
  "finalize ad anonymous_owner refuses s t error =
     (case (if ss_persists s
            then save_messages anonymous_owner refuses s (prior_messages ad s @ messages t)
            else ([], None)) of
        (saved, Some e) \<Rightarrow> (saved, Some e)
      | (saved, None) \<Rightarrow>
          (saved @ [Audited \<lparr>au_tool_name = ''agent.run'', au_arguments = run_ref s, au_success = False,
                             au_error = error, au_ip_address = ss_ip s\<rparr>], None))"

definition cancelled_words :: ustr where
  "cancelled_words = ustr ''cancelled: client disconnected mid-run''"

definition failed_words :: "ustr \<Rightarrow> ustr" where
  "failed_words message = ustr ''run failed: '' @ message"

definition withheld :: ustr where
  "withheld = ustr ''The run failed. The failure has been recorded.''"

fun client_facing_error :: "session_config \<Rightarrow> event \<Rightarrow> event" where
  "client_facing_error cfg (RunError message) = RunError (if include_detail cfg then message else withheld)"
| "client_facing_error cfg e = e"

section \<open>The stream\<close>

text \<open>
  The inner stages, \<open>stream\<close> up to the race: the reasoning filter, the compaction injector and
  around it the invalidation injector. Each step of the native stream carries what was written
  into the two sinks while it was produced; a dropped event leaves its entries to the next one.
\<close>

type_synonym native_step = "(string \<times> compaction) list \<times> event list \<times> event"

fun drop_reasoning_steps ::
    "(string \<times> compaction) list \<Rightarrow> event list \<Rightarrow> native_step list \<Rightarrow>
     native_step list \<times> (string \<times> compaction) list \<times> event list" where
  "drop_reasoning_steps cs is [] = ([], cs, is)"
| "drop_reasoning_steps cs is ((c, i, e) # native) =
     (if is_reasoning_type (event_type e) then drop_reasoning_steps (cs @ c) (is @ i) native
      else case drop_reasoning_steps [] [] native of
        (rest, cs', is') \<Rightarrow> ((cs @ c, is @ i, e) # rest, cs', is'))"

definition compaction_stage :: "native_step list \<Rightarrow> (event list \<times> event) list" where
  "compaction_stage native = concat (map (\<lambda>(c, i, e).
     (case inject_compaction_events \<lparr>steps = [(c, e)], trailing = [], raises = True\<rparr> of
        [] \<Rightarrow> [] | x # xs \<Rightarrow> (i, x) # map (Pair []) xs)) native)"

definition compaction_tail :: "(string \<times> compaction) list \<Rightarrow> event list \<Rightarrow> (event list \<times> event) list \<times> event list" where
  "compaction_tail cs is =
     (case map compaction_event cs of [] \<Rightarrow> ([], is) | x # xs \<Rightarrow> ((is, x) # map (Pair []) xs, []))"

definition inner_events ::
    "bool \<Rightarrow> native_step list \<Rightarrow> (string \<times> compaction) list \<Rightarrow> event list \<Rightarrow> event list" where
  "inner_events fwd native last_compactions last_invalidations =
     (case (if fwd then (native, [], []) else drop_reasoning_steps [] [] native) of
        (kept, cs, is) \<Rightarrow>
          (case compaction_tail (cs @ last_compactions) (is @ last_invalidations) of
             (tail, left) \<Rightarrow>
               inject_invalidation_events
                 \<lparr>steps = compaction_stage kept @ tail, trailing = left, raises = False\<rparr>))"

text \<open>
  The outer stages, from the race on: prompts are stamped where any are configured, the
  transcript records where there is a store, and the error hook persists and redacts.
\<close>

datatype moment = Emits event | Completes "model_message list"

datatype outcome = RanOut | Broke string

fun stamp_moments :: "(string \<rightharpoonup> ustr) \<Rightarrow> (string \<rightharpoonup> string) \<Rightarrow> moment list \<Rightarrow> moment list" where
  "stamp_moments prompts names [] = []"
| "stamp_moments prompts names (Completes new # ms) = Completes new # stamp_moments prompts names ms"
| "stamp_moments prompts names (Emits e # ms) =
     (case e of
        ToolCallStart c n _ \<Rightarrow> Emits e # stamp_moments prompts (names(c \<mapsto> n)) ms
      | RunFinished _ \<Rightarrow> Emits (stamped names prompts e) # stamp_moments prompts names ms
      | _ \<Rightarrow> Emits e # stamp_moments prompts names ms)"

text \<open>
  The rest of the run as the client and the outside see it: frames, effects, how the stream
  ended, and the transcript at that point. A failing \<open>on_complete\<close> raises into the adapter,
  whose reaction is what follows in the list of moments.
\<close>

fun drive ::
    "adapter \<Rightarrow> (string \<Rightarrow> string option) \<Rightarrow> (row \<Rightarrow> raised option) \<Rightarrow> 'tool session \<Rightarrow> transcript \<Rightarrow>
     moment list \<Rightarrow> event list \<times> effect list \<times> outcome \<times> transcript" where
  "drive ad owner refuses s t [] = ([], [], RanOut, t)"
| "drive ad owner refuses s t (Completes new # ms) =
     (case drive ad owner refuses s t ms of
        (frames, effects, ending, t') \<Rightarrow>
          (frames, fst (on_complete ad owner refuses s t new) @ effects, ending, t'))"
| "drive ad owner refuses s t (Emits e # ms) =
     (case (if ss_persists s then add_event t e else Inr t) of
        Inl key \<Rightarrow> ([], [], Broke key, t)
      | Inr t1 \<Rightarrow>
          (case (case e of
                   RunError message \<Rightarrow> finalize ad owner refuses s t1 (failed_words message)
                 | _ \<Rightarrow> ([], None)) of
             (done, Some err) \<Rightarrow> ([], done, Broke err, t1)
           | (done, None) \<Rightarrow>
               (case drive ad owner refuses s t1 ms of
                  (frames, effects, ending, t') \<Rightarrow>
                    (client_facing_error (ss_config s) e # frames, done @ effects, ending, t'))))"

text \<open>
  \<open>stream\<close> under the guard: with \<open>disconnected\<close> the client leaves when the moments have
  passed, and \<open>on_cancel\<close> runs on the transcript as it then stands; what it raises is logged.
\<close>

definition session_stream ::
    "adapter \<Rightarrow> (string \<Rightarrow> string option) \<Rightarrow> (row \<Rightarrow> raised option) \<Rightarrow> 'tool session \<Rightarrow>
     moment list \<Rightarrow> bool \<Rightarrow> event list \<times> effect list \<times> outcome" where
  "session_stream ad owner refuses s moments disconnected =
     (let prompts = approval_prompts (ss_config s);
          stamped_moments = (if prompts = [] then moments
                             else stamp_moments (map_of prompts) Map.empty moments)
      in case drive ad owner refuses s new_transcript stamped_moments of
           (frames, effects, ending, t) \<Rightarrow>
             (frames,
              effects @ (if disconnected \<and> ending = RanOut
                         then fst (finalize ad owner refuses s t cancelled_words) else []),
              ending))"

section \<open>The inner stages compose\<close>

lemma compaction_stage_Cons:
  "compaction_stage ((c, i, e) # native) =
     (case map compaction_event c @ [e] of [] \<Rightarrow> [] | x # xs \<Rightarrow> (i, x) # map (Pair []) xs)
     @ compaction_stage native"
  by (simp add: compaction_stage_def inject_compaction_events_def inject_events_placed)

lemma pairs_surface:
  "concat (map (\<lambda>(w, e). w @ [e]) (case xs of [] \<Rightarrow> [] | y # ys \<Rightarrow> (i, y) # map (Pair []) ys))
     = (if xs = [] then [] else i @ xs)"
proof (cases xs)
  case (Cons y ys)
  have "concat (map (\<lambda>(w, e). w @ [e]) (map (Pair []) ys)) = ys" by (induction ys) simp_all
  with Cons show ?thesis by simp
qed simp

lemma compaction_stage_surfaces:
  "concat (map (\<lambda>(w, e). w @ [e]) (compaction_stage native))
     = concat (map (\<lambda>(c, i, e). i @ map compaction_event c @ [e]) native)"
proof (induction native)
  case (Cons x native)
  obtain c i e where x: "x = (c, i, e)" by (cases x)
  with Cons show ?case by (simp add: compaction_stage_Cons pairs_surface)
qed (simp add: compaction_stage_def)

definition quiet :: "event \<Rightarrow> bool" where
  "quiet e \<longleftrightarrow> is_reasoning_type (event_type e)"

text \<open>The native events that are kept, with everything written since the last one kept.\<close>

lemma dropped_steps:
  "drop_reasoning_steps cs is native = (kept, cs', is') \<Longrightarrow>
     map (\<lambda>(c, i, e). e) kept = filter (\<lambda>e. \<not> quiet e) (map (\<lambda>(c, i, e). e) native)
     \<and> concat (map (\<lambda>(c, i, e). c) kept) @ cs' = cs @ concat (map (\<lambda>(c, i, e). c) native)
     \<and> concat (map (\<lambda>(c, i, e). i) kept) @ is' = is @ concat (map (\<lambda>(c, i, e). i) native)"
proof (induction cs "is" native arbitrary: kept rule: drop_reasoning_steps.induct)
  case (2 cs "is" c i e native)
  show ?case
  proof (cases "is_reasoning_type (event_type e)")
    case True
    with 2 show ?thesis by (simp add: quiet_def)
  next
    case False
    obtain rest where r: "drop_reasoning_steps [] [] native = (rest, cs', is')" "kept = (cs @ c, is @ i, e) # rest"
      using 2(3) False by (auto split: prod.splits)
    with 2(2) [OF False r(1)] False show ?thesis by (simp add: quiet_def)
  qed
qed simp

definition is_compaction :: "event \<Rightarrow> bool" where
  "is_compaction e \<longleftrightarrow> (case e of ActivitySnapshot _ ty _ _ \<Rightarrow> ty = ''compaction'' | _ \<Rightarrow> False)"

text \<open>
  The two injectors and the filter in front of them compose to one arrangement: before each
  event that is forwarded come the invalidations, then the compactions, written since the one
  forwarded before it, and what is left goes out at the end in the same order. With reasoning
  kept back no reasoning event of the run is forwarded and every other one is, in order, and no
  compaction and no invalidation is lost with a dropped event.
\<close>

theorem inner_stages_compose:
  "\<exists>kept cs is.
     inner_events fwd native lc li =
       concat (map (\<lambda>(c, i, e). i @ map compaction_event c @ [e]) kept) @ is @ map compaction_event cs
     \<and> map (\<lambda>(c, i, e). e) kept =
         filter (\<lambda>e. fwd \<or> \<not> quiet e) (map (\<lambda>(c, i, e). e) native)
     \<and> concat (map (\<lambda>(c, i, e). c) kept) @ cs = concat (map (\<lambda>(c, i, e). c) native) @ lc
     \<and> concat (map (\<lambda>(c, i, e). i) kept) @ is = concat (map (\<lambda>(c, i, e). i) native) @ li"
proof -
  obtain kept cs "is" where k: "(if fwd then (native, [], []) else drop_reasoning_steps [] [] native) = (kept, cs, is)"
    by (metis prod_cases3)
  have tails: "case compaction_tail c i of (tail, left) \<Rightarrow>
      concat (map (\<lambda>(w, e). w @ [e]) tail) @ left = i @ map compaction_event c" for c i
    using pairs_surface [of i "map compaction_event c"]
    by (cases "map compaction_event c") (auto simp: compaction_tail_def)
  have "inner_events fwd native lc li =
      concat (map (\<lambda>(c, i, e). i @ map compaction_event c @ [e]) kept)
        @ (is @ li) @ map compaction_event (cs @ lc)"
    using tails [where c = "cs @ lc" and i = "is @ li"]
    by (simp add: inner_events_def k inject_invalidation_events_def inject_events_placed
        compaction_stage_surfaces split: prod.splits)
  moreover have "map (\<lambda>(c, i, e). e) kept = filter (\<lambda>e. fwd \<or> \<not> quiet e) (map (\<lambda>(c, i, e). e) native)
     \<and> concat (map (\<lambda>(c, i, e). c) kept) @ cs = concat (map (\<lambda>(c, i, e). c) native)
     \<and> concat (map (\<lambda>(c, i, e). i) kept) @ is = concat (map (\<lambda>(c, i, e). i) native)"
    using k dropped_steps [of "[]" "[]" native kept cs "is"] by (cases fwd) auto
  ultimately show ?thesis by (intro exI [of _ kept] exI [of _ "cs @ lc"] exI [of _ "is @ li"]) simp
qed

section \<open>One channel for the client's context\<close>

fun is_client_block :: "instruction \<Rightarrow> bool" where
  "is_client_block (ClientBlock _) = True"
| "is_client_block (Operator _) = False"

definition blocks_told :: "'tool session \<Rightarrow> ustr list" where
  "blocks_told s =
     List.map_filter (\<lambda>i. case i of ClientBlock b \<Rightarrow> Some b | Operator _ \<Rightarrow> None)
       (case run_instructions s of None \<Rightarrow> [] | Some is \<Rightarrow> is)"

definition blocks_offered :: "'tool session \<Rightarrow> ustr list" where
  "blocks_offered s = List.map_filter call_client_context (case run_toolsets s of None \<Rightarrow> [] | Some ts \<Rightarrow> ts)"

lemma no_blocks_in_tools: "List.map_filter call_client_context (map EndpointTool ts) = []"
  by (induction ts) (simp_all add: map_filter_simps)

text \<open>
  What the client said reaches the model through one channel only, the configured one, at
  most once and as the fenced block; the operator's instructions are first and unchanged on
  either channel, and the endpoint's own tools come before the context tool and are all there.
\<close>

theorem context_rides_one_channel:
  "blocks_told s = (if delivery_of (ss_config s) = ToInstructions then
       (case client_context_block s of None \<Rightarrow> [] | Some b \<Rightarrow> [b]) else [])
   \<and> blocks_offered s = (if delivery_of (ss_config s) = ToTool then
       (case client_context_block s of None \<Rightarrow> [] | Some b \<Rightarrow> [b]) else [])
   \<and> prefix (case operator_only s of None \<Rightarrow> [] | Some is \<Rightarrow> is)
       (case run_instructions s of None \<Rightarrow> [] | Some is \<Rightarrow> is)
   \<and> prefix (map EndpointTool (case ss_toolsets s of None \<Rightarrow> [] | Some ts \<Rightarrow> ts))
       (case run_toolsets s of None \<Rightarrow> [] | Some ts \<Rightarrow> ts)"
  by (cases "delivery_of (ss_config s)"; cases "client_context_block s"; cases "ss_instructions s"; cases "ss_toolsets s")
     (simp_all add: blocks_told_def blocks_offered_def run_instructions_def run_toolsets_def
       operator_only_def no_blocks_in_tools map_filter_append map_filter_simps)

section \<open>The prompts before the transcript\<close>

definition ordinary :: "event \<Rightarrow> bool" where
  "ordinary e \<longleftrightarrow> (case e of RunError _ \<Rightarrow> False | _ \<Rightarrow> True)"

lemma client_facing_ordinary [simp]: "ordinary e \<Longrightarrow> client_facing_error cfg e = e"
  by (cases e) (simp_all add: ordinary_def)

lemma stamp_moments_step:
  "stamp_moments prompts names (Emits e # ms)
     = Emits (stamped names prompts e) # stamp_moments prompts (names_after names e) ms"
  by (cases e) (simp_all add: names_after_def)

lemmas stamping = stamp_step stamp_moments_step

lemma stamp_moments_emits:
  "stamp_moments prompts names (map Emits es @ ms)
     = map Emits (stamp_prompts prompts names es)
       @ stamp_moments prompts (fold (\<lambda>e n. names_after n e) es names) ms"
  by (induction es arbitrary: names)
     (simp_all add: stamping del: stamp_prompts.simps(2) stamp_moments.simps(3))

lemma no_prompts_moments: "stamp_moments Map.empty names ms = ms"
proof (induction ms arbitrary: names)
  case (Cons m ms)
  then show ?case
    by (cases m) (simp_all add: stamping stamped_no_prompts del: stamp_moments.simps(3))
qed simp

text \<open>Whether any prompts are configured or not, the stream is the one that is stamped.\<close>

definition prompts_of :: "'tool session \<Rightarrow> string \<rightharpoonup> ustr" where
  "prompts_of s = map_of (approval_prompts (ss_config s))"

lemma session_stream_stamped:
  "session_stream ad owner refuses s moments disconnected =
     (case drive ad owner refuses s new_transcript (stamp_moments (prompts_of s) Map.empty moments) of
        (frames, effects, ending, t) \<Rightarrow>
          (frames, effects @ (if disconnected \<and> ending = RanOut
             then fst (finalize ad owner refuses s t cancelled_words) else []), ending))"
  by (simp add: session_stream_def prompts_of_def Let_def no_prompts_moments)

lemma stamped_ordinary_event [simp]: "ordinary (stamped names prompts e) = ordinary e"
  by (cases "(names, prompts, e)" rule: stamped.cases; simp add: Let_def ordinary_def)

lemma stamped_ordinary: "list_all ordinary (stamp_prompts p n es) = list_all ordinary es"
  by (induction es arbitrary: n) (simp_all add: stamping del: stamp_prompts.simps(2))

lemma stamped_recorded: "record_events t (stamp_prompts p n es) = record_events t es"
proof (induction es arbitrary: t n)
  case (Cons e es)
  have "add_event t (stamped n p e) = add_event t e"
    by (cases "(n, p, e)" rule: stamped.cases) (simp_all add: Let_def)
  with Cons show ?case
    by (cases "add_event t e") (simp_all add: stamping del: stamp_prompts.simps(2))
qed simp

section \<open>The exits\<close>

lemma drive_ordinary:
  assumes "list_all ordinary es" and "ss_persists s" and "record_events t es = Inr t'"
  shows "drive ad owner refuses s t (map Emits es @ ms) =
    (case drive ad owner refuses s t' ms of (frames, rest) \<Rightarrow> (es @ frames, rest))"
  using assms
proof (induction es arbitrary: t)
  case (Cons e es)
  then obtain t1 where t1: "add_event t e = Inr t1" "record_events t1 es = Inr t'"
    by (cases "add_event t e") auto
  from Cons.prems(1) have "(case e of RunError message \<Rightarrow> x message | _ \<Rightarrow> y) = y" for x and y :: "effect list \<times> string option"
    by (cases e) (simp_all add: ordinary_def)
  with Cons t1 show ?case by (simp split: prod.splits)
qed (simp split: prod.splits)

lemma drive_stamped:
  assumes "list_all ordinary es" and "ss_persists s" and "record_events t es = Inr t'"
  shows "drive ad owner refuses s t (map Emits (stamp_prompts prompts names es) @ ms) =
    (case drive ad owner refuses s t' ms of (frames, rest) \<Rightarrow> (stamp_prompts prompts names es @ frames, rest))"
  using assms by (intro drive_ordinary) (simp_all add: stamped_ordinary stamped_recorded)

definition row_of :: "(string \<Rightarrow> string option) \<Rightarrow> 'tool session \<Rightarrow> message list \<Rightarrow> row" where
  "row_of owner s ms = \<lparr>row_thread_id = ss_thread_id s, row_messages = ms, row_owner_id = owner_id owner s\<rparr>"

definition run_audit :: "'tool session \<Rightarrow> ustr \<Rightarrow> effect" where
  "run_audit s error = Audited \<lparr>au_tool_name = ''agent.run'', au_arguments = run_ref s,
     au_success = False, au_error = error, au_ip_address = ss_ip s\<rparr>"

lemma saved_row:
  "refuses (row_of owner s ms) = None \<Longrightarrow> save_messages owner refuses s ms = ([Saved (row_of owner s ms)], None)"
  by (simp add: save_messages_def row_of_def Let_def)

lemma finalized:
  assumes "ss_persists s" and "\<And>r. refuses r = None"
  shows "finalize ad owner refuses s t error =
    ([Saved (row_of owner s (prior_messages ad s @ messages t)), run_audit s error], None)"
  using assms by (simp add: finalize_def saved_row run_audit_def)

lemma completed:
  assumes "ss_persists s" and "\<And>r. refuses r = None"
  shows "on_complete ad owner refuses s t new =
    ([Saved (row_of owner s (prior_messages ad s @
        strip_binary_content (with_streamed_ids t (dump_messages (ad_dump ad) new))))], None)"
  using assms by (simp add: on_complete_def saved_row Let_def)

lemma completed_run:
  assumes "ss_persists s" and "\<And>r. refuses r = None"
    and "list_all ordinary (es @ tail)" and "record_events new_transcript es = Inr t"
    and "record_events t tail = Inr t'"
  shows "session_stream ad owner refuses s (map Emits es @ Completes new # map Emits tail) False =
      (stamp_approval_prompts (prompts_of s) (es @ tail),
       [Saved (row_of owner s (prior_messages ad s @
          strip_binary_content (with_streamed_ids t (dump_messages (ad_dump ad) new))))], RanOut)"
proof -
  have o: "list_all ordinary es" "list_all ordinary tail" using assms(3) by simp_all
  have rest: "drive ad owner refuses s t (stamp_moments (prompts_of s) names (map Emits tail)) =
      (stamp_prompts (prompts_of s) names tail, [], RanOut, t')" for names
    using drive_stamped [OF o(2) assms(1,5), of ad owner refuses "prompts_of s" names "[]"]
      stamp_moments_emits [of "prompts_of s" names tail "[]"] by simp
  show ?thesis
    by (simp add: session_stream_stamped stamp_moments_emits drive_stamped [OF o(1) assms(1,4)] rest
        completed [OF assms(1,2)] stamp_approval_prompts_def stamp_prompts_append)
qed

text \<open>
  C27. A run is stored once on whichever exit it takes, and always as the conversation before it
  followed by what it produced: a completed run under the dumped result with the ids it streamed
  and without file bytes, a failed and a cancelled one under what the transcript saw, and those
  two are audited once, with the reason. What the client had received by then it keeps, with the
  configured prompts on it, and a failure reaches it as its last frame.
\<close>

theorem every_exit_stores_the_exchange:
  assumes "ss_persists s" and "\<And>r. refuses r = None"
    and "list_all ordinary (es @ tail)" and "record_events new_transcript es = Inr t"
    and "record_events t tail = Inr t'"
  shows "session_stream ad owner refuses s (map Emits es @ Completes new # map Emits tail) False =
      (stamp_approval_prompts (prompts_of s) (es @ tail),
       [Saved (row_of owner s (prior_messages ad s @
          strip_binary_content (with_streamed_ids t (dump_messages (ad_dump ad) new))))], RanOut)
    \<and> session_stream ad owner refuses s (map Emits es @ [Emits (RunError message)]) False =
      (stamp_approval_prompts (prompts_of s) es @ [client_facing_error (ss_config s) (RunError message)],
       [Saved (row_of owner s (prior_messages ad s @ messages t)), run_audit s (failed_words message)], RanOut)
    \<and> session_stream ad owner refuses s (map Emits es) True =
      (stamp_approval_prompts (prompts_of s) es,
       [Saved (row_of owner s (prior_messages ad s @ messages t)), run_audit s cancelled_words], RanOut)"
proof -
  have "list_all ordinary es" using assms(3) by simp
  note exits = drive_stamped [OF this assms(1,4), of ad owner refuses "prompts_of s" Map.empty]
  have "drive ad owner refuses s new_transcript (map Emits (stamp_prompts (prompts_of s) Map.empty es)) =
      (stamp_prompts (prompts_of s) Map.empty es, [], RanOut, t)"
    using exits [of "[]"] by simp
  moreover have "session_stream ad owner refuses s (map Emits es) True =
      (case drive ad owner refuses s new_transcript (map Emits (stamp_prompts (prompts_of s) Map.empty es)) of
        (frames, effects, ending, t) \<Rightarrow> (frames, effects @ (if ending = RanOut
             then fst (finalize ad owner refuses s t cancelled_words) else []), ending))"
    using stamp_moments_emits [of "prompts_of s" Map.empty es "[]"] by (simp add: session_stream_stamped)
  moreover note completed_run [OF assms]
  ultimately show ?thesis
    using exits [of "[Emits (RunError message)]"]
    by (simp add: session_stream_stamped stamp_moments_emits stamp_approval_prompts_def
        finalized [OF assms(1,2)])
qed

section \<open>What the client is told of a failure\<close>

fun emitted :: "moment list \<Rightarrow> event list" where
  "emitted [] = []"
| "emitted (Emits e # ms) = e # emitted ms"
| "emitted (Completes _ # ms) = emitted ms"

lemma emitted_stamped: "emitted (stamp_moments prompts names ms) = stamp_prompts prompts names (emitted ms)"
proof (induction ms arbitrary: names)
  case (Cons m ms)
  then show ?case by (cases m) (simp_all add: stamping del: stamp_prompts.simps(2) stamp_moments.simps(3))
qed simp

lemma drive_frames:
  "\<exists>n. fst (drive ad owner refuses s t ms) = map (client_facing_error (ss_config s)) (take n (emitted ms))"
proof (induction ms arbitrary: t)
  case (Cons m ms)
  show ?case
  proof (cases m)
    case (Completes new)
    with Cons [of t] show ?thesis by (auto split: prod.splits)
  next
    case (Emits e)
    show ?thesis
    proof (cases "if ss_persists s then add_event t e else Inr t")
      case (Inl key)
      with Emits show ?thesis by (intro exI [of _ 0]) simp
    next
      case (Inr t1)
      obtain acts err where d: "(case e of RunError message \<Rightarrow>
          finalize ad owner refuses s t1 (failed_words message) | _ \<Rightarrow> ([], None)) = (acts, err)"
        by fastforce
      obtain n where n: "fst (drive ad owner refuses s t1 ms)
          = map (client_facing_error (ss_config s)) (take n (emitted ms))"
        using Cons by blast
      show ?thesis
      proof (cases err)
        case None
        obtain frames rest where "drive ad owner refuses s t1 ms = (frames, rest)" by (metis surj_pair)
        with Emits Inr d n None show ?thesis
          by (intro exI [of _ "Suc n"]) (cases rest, simp)
      next
        case (Some x)
        with Emits Inr d show ?thesis by (intro exI [of _ 0]) simp
      qed
    qed
  qed
qed simp

text \<open>
  Unless detail is opted in, no run failure's own words leave the server: whatever the run
  does and whatever is configured, every frame the client gets is an event of the run in its
  order, with each failure's text replaced by the fixed sentence and nothing else touched.
\<close>

theorem failure_text_is_withheld:
  assumes "\<not> include_detail (ss_config s)"
    and "session_stream ad owner refuses s moments disconnected = (frames, effects, ending)"
  shows "filter (\<lambda>e. case e of RunError message \<Rightarrow> message \<noteq> withheld | _ \<Rightarrow> False) frames = []
    \<and> (\<exists>n. filter ordinary frames =
         filter ordinary (take n (stamp_approval_prompts (prompts_of s) (emitted moments))))"
proof -
  obtain n where n: "frames = map (client_facing_error (ss_config s))
      (take n (stamp_approval_prompts (prompts_of s) (emitted moments)))"
    using assms(2) drive_frames [of ad owner refuses s new_transcript "stamp_moments (prompts_of s) Map.empty moments"]
    by (auto simp: session_stream_stamped emitted_stamped stamp_approval_prompts_def split: prod.splits)
  have "filter (\<lambda>e. case e of RunError message \<Rightarrow> message \<noteq> withheld | _ \<Rightarrow> False)
        (map (client_facing_error (ss_config s)) es) = []
      \<and> filter ordinary (map (client_facing_error (ss_config s)) es) = filter ordinary es" for es
  proof (induction es)
    case (Cons e es)
    then show ?case using assms(1) by (cases e) (simp_all add: ordinary_def)
  qed simp
  with n show ?thesis by auto
qed

section \<open>Bytes\<close>

definition bytes_in :: "message list \<Rightarrow> input_part list" where
  "bytes_in ms = filter is_inline_binary (concat (map content_parts ms))"

lemma bytes_in_append: "bytes_in (xs @ ys) = bytes_in xs @ bytes_in ys"
  by (simp add: bytes_in_def)

lemma bytes_in_stripped [simp]: "bytes_in (strip_binary_content ms) = []"
  by (simp add: bytes_in_def strip_binary_parts)

lemma bytes_in_bodies: "map body xs = map body ys \<Longrightarrow> bytes_in xs = bytes_in ys"
proof -
  have "content_parts m = content_parts (body m)" for m
    by (simp add: content_parts_def body_def)
  then have "map content_parts ms = map content_parts (map body ms)" for ms
    by simp
  then show "map body xs = map body ys \<Longrightarrow> bytes_in xs = bytes_in ys"
    by (metis bytes_in_def)
qed

lemma result_items: "ResultItem m \<in> set its \<Longrightarrow> m \<in> set (results its)"
  by (induction its rule: results.induct) auto

lemma recorded_kinds:
  assumes "transcript_ok t" and "m \<in> set (messages t)"
  shows "(\<exists>x call. payload m = ToolMsg x call) \<or> (\<exists>x calls. payload m = AssistantMsg x calls)"
proof -
  obtain i where i: "i \<in> set (items t)" "item_message i = Some m"
    using assms(2) by (auto simp: messages_def map_filter_mem)
  show ?thesis
  proof (cases i)
    case (DraftItem d)
    with i(2) show ?thesis by (auto simp: Let_def split: if_splits)
  next
    case (ResultItem n)
    with i have "m \<in> set (results (items t))" by (auto intro: result_items)
    with assms(1) have "is_tool_message m" by (auto simp: transcript_ok_def list_all_iff)
    then show ?thesis by (cases "payload m") auto
  qed
qed

lemma bytes_in_recorded: "transcript_ok t \<Longrightarrow> bytes_in (messages t) = []"
  using recorded_kinds [of t] by (fastforce simp: bytes_in_def content_parts_def filter_empty_conv)

lemma new_turn_is_suffix: "\<exists>kept. prior_messages ad s = kept @
    (case ss_history s of None \<Rightarrow> ss_posted s
     | Some h \<Rightarrow> snd (continued_history (ad_loads ad) (\<lambda>m. ad_dump ad [m]) (ad_pending ad) h (ss_posted s)))
    \<and> bytes_in kept = []"
proof (cases "ss_history s")
  case None
  then show ?thesis by (intro exI [of _ "[]"]) (simp add: prior_messages_def bytes_in_def)
next
  case (Some h)
  obtain kept turn where c: "continued_history (ad_loads ad) (\<lambda>m. ad_dump ad [m]) (ad_pending ad) h (ss_posted s) = (kept, turn)"
    by fastforce
  have "bytes_in (lend_stored_ids (strip_binary_content ms) source r) = []" for ms source r
    using bytes_in_bodies [OF lend_stored_bodies [of "strip_binary_content ms" source r]] by simp
  with Some c show ?thesis
    by (auto simp: prior_messages_def Let_def split: option.split)
qed

definition clients_own :: "adapter \<Rightarrow> 'tool session \<Rightarrow> message list" where
  "clients_own ad s =
     (case ss_history s of
        None \<Rightarrow> ss_posted s
      | Some h \<Rightarrow> snd (continued_history (ad_loads ad) (\<lambda>m. ad_dump ad [m]) (ad_pending ad) h (ss_posted s)))"

lemma prior_bytes: "bytes_in (prior_messages ad s) = bytes_in (clients_own ad s)"
  using new_turn_is_suffix [of ad s] by (auto simp: clients_own_def bytes_in_append)

text \<open>A row a run may save: the conversation before it, and then nothing with bytes in it.\<close>

definition run_row :: "adapter \<Rightarrow> (string \<Rightarrow> string option) \<Rightarrow> 'tool session \<Rightarrow> row \<Rightarrow> bool" where
  "run_row ad owner s r \<longleftrightarrow>
     (\<exists>exchange. r = row_of owner s (prior_messages ad s @ exchange) \<and> bytes_in exchange = [])"

lemma save_messages_row: "Saved r \<in> set (fst (save_messages owner refuses s ms)) \<Longrightarrow> r = row_of owner s ms"
  by (auto simp: save_messages_def row_of_def Let_def split: option.splits raised.splits)

lemma completed_row:
  "Saved r \<in> set (fst (on_complete ad owner refuses s t new)) \<Longrightarrow> run_row ad owner s r"
  by (auto simp: on_complete_def run_row_def Let_def dest!: save_messages_row split: if_splits)

lemma finalized_row:
  assumes "transcript_ok t" and "Saved r \<in> set (fst (finalize ad owner refuses s t error))"
  shows "run_row ad owner s r"
proof -
  have "Saved r \<in> set (fst (save_messages owner refuses s (prior_messages ad s @ messages t)))"
    using assms(2) by (auto simp: finalize_def split: if_splits prod.splits option.splits)
  from save_messages_row [OF this] show ?thesis
    using bytes_in_recorded [OF assms(1)] by (auto simp: run_row_def)
qed

lemma drive_rows:
  assumes "transcript_ok t" and "drive ad owner refuses s t ms = (frames, effects, ending, t')"
  shows "transcript_ok t' \<and> (\<forall>r. Saved r \<in> set effects \<longrightarrow> run_row ad owner s r)"
  using assms
proof (induction ms arbitrary: t frames effects)
  case (Cons m ms)
  show ?case
  proof (cases m)
    case (Completes new)
    obtain frames' effects' where "drive ad owner refuses s t ms = (frames', effects', ending, t')"
        "effects = fst (on_complete ad owner refuses s t new) @ effects'"
      using Cons.prems(2) Completes by (auto split: prod.splits)
    with Cons.IH [OF Cons.prems(1)] show ?thesis by (auto dest: completed_row)
  next
    case (Emits e)
    show ?thesis
    proof (cases "if ss_persists s then add_event t e else Inr t")
      case (Inl key)
      with Cons.prems Emits show ?thesis by simp
    next
      case (Inr t1)
      have ok: "transcript_ok t1"
        using Inr Cons.prems(1) by (auto split: if_splits dest: add_event_ok)
      obtain acts err where d: "(case e of RunError message \<Rightarrow>
          finalize ad owner refuses s t1 (failed_words message) | _ \<Rightarrow> ([], None)) = (acts, err)"
        by fastforce
      have acts: "run_row ad owner s r" if "Saved r \<in> set acts" for r
        using d that finalized_row [OF ok, of r ad owner refuses s] by (cases e) (auto, metis fst_conv)
      obtain frames' effects' ending' t2 where r: "drive ad owner refuses s t1 ms = (frames', effects', ending', t2)"
        by (metis prod_cases4)
      show ?thesis
      proof (cases err)
        case None
        with Cons.prems(2) Emits Inr d r have "ending' = ending" "t2 = t'" "effects = acts @ effects'" by auto
        with Cons.IH [OF ok] r acts show ?thesis by auto
      next
        case (Some x)
        with Cons.prems(2) Emits Inr d ok acts show ?thesis by auto
      qed
    qed
  qed
qed simp

text \<open>Every row a session saves, on whichever exit.\<close>

lemma session_rows:
  assumes "session_stream ad owner refuses s moments disconnected = (frames, effects, ending)"
    and "Saved r \<in> set effects"
  shows "run_row ad owner s r"
proof -
  obtain effects' t where d: "drive ad owner refuses s new_transcript
        (stamp_moments (prompts_of s) Map.empty moments) = (frames, effects', ending, t)"
      and e: "effects = effects' @ (if disconnected \<and> ending = RanOut
         then fst (finalize ad owner refuses s t cancelled_words) else [])"
    using assms(1) by (auto simp: session_stream_stamped split: prod.splits)
  from drive_rows [OF new_transcript_ok d] e assms(2) finalized_row [of t r ad owner refuses s cancelled_words]
  show ?thesis by (auto split: if_splits)
qed


section \<open>Two exits at once\<close>

text \<open>
  C29. A client that leaves after its run completed but before the stream ended has the finished
  row written over: the guard stores what the transcript saw in its place - without the
  reasoning the result holds, for instance - and audits the completed run as cancelled.
\<close>

theorem late_disconnect_overwrites_the_completed_row:
  assumes "ss_persists s" and "\<And>r. refuses r = None"
    and "list_all ordinary es" and "record_events new_transcript es = Inr t"
  shows "session_stream ad owner refuses s (map Emits es @ [Completes new]) True =
      (stamp_approval_prompts (prompts_of s) es,
       [Saved (row_of owner s (prior_messages ad s @
          strip_binary_content (with_streamed_ids t (dump_messages (ad_dump ad) new)))),
        Saved (row_of owner s (prior_messages ad s @ messages t)),
        run_audit s cancelled_words], RanOut)
    \<and> filter (\<lambda>m. case payload m of ReasoningMsg _ \<Rightarrow> True | _ \<Rightarrow> False) (messages t) = []"
proof
  show "session_stream ad owner refuses s (map Emits es @ [Completes new]) True =
      (stamp_approval_prompts (prompts_of s) es,
       [Saved (row_of owner s (prior_messages ad s @
          strip_binary_content (with_streamed_ids t (dump_messages (ad_dump ad) new)))),
        Saved (row_of owner s (prior_messages ad s @ messages t)),
        run_audit s cancelled_words], RanOut)"
    by (simp add: session_stream_stamped stamp_moments_emits drive_stamped [OF assms(3,1,4)]
        stamp_approval_prompts_def finalized [OF assms(1,2)] completed [OF assms(1,2)])
  have "transcript_ok t" using assms(4) record_events_ok new_transcript_ok by blast
  from recorded_kinds [OF this]
  show "filter (\<lambda>m. case payload m of ReasoningMsg _ \<Rightarrow> True | _ \<Rightarrow> False) (messages t) = []"
    by (fastforce simp: filter_empty_conv)
qed

text \<open>
  A store that breaks while a failed run is being saved takes the rest of that exit with
  it: the run is not audited, and the client never gets the frame that says the run failed.
\<close>

theorem failing_store_hides_the_failure:
  assumes "ss_persists s" and "\<And>r. refuses r = Some (Unhandled err)"
    and "list_all ordinary es" and "record_events new_transcript es = Inr t"
  shows "session_stream ad owner refuses s (map Emits es @ Emits (RunError message) # rest) disconnected =
      (stamp_approval_prompts (prompts_of s) es, [], Broke err)"
  by (simp add: session_stream_stamped stamp_moments_emits drive_stamped [OF assms(3,1,4)]
      stamp_approval_prompts_def assms(1,2) finalize_def save_messages_def Let_def)

section \<open>A concrete run\<close>

definition plain_adapter :: adapter where
  "plain_adapter = \<lparr>ad_loads = (\<lambda>_. []), ad_dump = (\<lambda>ms. map (\<lambda>_. plain_message ''fresh'' (ReasoningMsg [])) ms),
     ad_pending = (\<lambda>_. [])\<rparr>"

definition plain_session :: "unit session" where
  "plain_session = \<lparr>ss_thread_id = ''t'', ss_run_id = ''r'',
     ss_posted = [plain_message ''u'' (UserMsg (PlainText []))], ss_context = [], ss_history = None,
     ss_source = None, ss_instructions = None, ss_toolsets = None,
     ss_config = \<lparr>forward_reasoning = True, approval_prompts = [], include_detail = False,
       run_context = \<lparr>client_context = True, attachment_manifest = True, max_context_chars = 20000\<rparr>,
       delivery_of = ToInstructions\<rparr>,
     ss_persists = True, ss_owner = Some ''o'', ss_session_key = None, ss_ip = None\<rparr>"

lemma plain_session_facts:
  "ss_persists plain_session" "\<not> include_detail (ss_config plain_session)"
  "prior_messages ad plain_session = ss_posted plain_session"
  "stamp_approval_prompts (prompts_of plain_session) es = es"
  by (simp_all add: plain_session_def prior_messages_def prompts_of_def stamp_approval_prompts_def no_prompts)

lemma hello_recorded:
  "\<exists>t. record_events new_transcript [TextMessageStart ''m'', TextMessageContent ''m'' [104]] = Inr t
     \<and> messages t = [plain_message ''m'' (AssistantMsg (Some [104]) None)]"
  by (simp add: new_transcript_def messages_def draft_for_def new_draft_def add_text_def map_filter_simps)

lemma every_exit_stores_the_exchange_witness:
  "\<exists>t. session_stream plain_adapter (\<lambda>_. None) (\<lambda>_. None) plain_session
      (map Emits [TextMessageStart ''m'', TextMessageContent ''m'' [104]] @ [Emits (RunError [1])]) False
    = ([TextMessageStart ''m'', TextMessageContent ''m'' [104], RunError withheld],
       [Saved (row_of (\<lambda>_. None) plain_session (ss_posted plain_session @ messages t)),
        run_audit plain_session (failed_words [1])], RanOut)"
proof -
  obtain t where t: "record_events new_transcript [TextMessageStart ''m'', TextMessageContent ''m'' [104]] = Inr t"
    using hello_recorded by blast
  from every_exit_stores_the_exchange [of plain_session "\<lambda>_. None" "[TextMessageStart ''m'', TextMessageContent ''m'' [104]]"
      "[]" t t plain_adapter "\<lambda>_. None" "[]" "[1]"] t
  show ?thesis
    by (intro exI [of _ t]) (simp add: plain_session_facts ordinary_def)
qed

lemma failure_text_is_withheld_witness:
  "fst (session_stream plain_adapter (\<lambda>_. None) (\<lambda>_. None) plain_session [Emits (RunError [1])] False)
     = [RunError withheld]"
proof -
  obtain frames effects ending where s: "session_stream plain_adapter (\<lambda>_. None) (\<lambda>_. None) plain_session
      [Emits (RunError [1])] False = (frames, effects, ending)" by (metis prod_cases3)
  from failure_text_is_withheld [OF plain_session_facts(2) s] s show ?thesis
    by (auto simp: session_stream_def plain_session_def finalize_def save_messages_def Let_def)
qed


lemma late_disconnect_overwrites_the_completed_row_witness:
  "length (fst (snd (session_stream plain_adapter (\<lambda>_. None) (\<lambda>_. None) plain_session
     (map Emits [TextMessageStart ''m'', TextMessageContent ''m'' [104]] @ [Completes []]) True))) = 3"
proof -
  obtain t where t: "record_events new_transcript [TextMessageStart ''m'', TextMessageContent ''m'' [104]] = Inr t"
    using hello_recorded by blast
  from late_disconnect_overwrites_the_completed_row [of plain_session "\<lambda>_. None"
      "[TextMessageStart ''m'', TextMessageContent ''m'' [104]]" t plain_adapter "\<lambda>_. None" "[]"] t
  show ?thesis by (simp add: plain_session_facts ordinary_def)
qed

lemma failing_store_hides_the_failure_witness:
  "session_stream plain_adapter (\<lambda>_. None) (\<lambda>_. Some (Unhandled ''down'')) plain_session
     [Emits (RunError [1])] False = ([], [], Broke ''down'')"
  using failing_store_hides_the_failure [of plain_session "\<lambda>_. Some (Unhandled ''down'')" "''down''" "[]"
      new_transcript plain_adapter "\<lambda>_. None" "[1]" "[]" False]
  by (simp add: plain_session_facts)

end
