(* ===== verification/RunEndpoint.thy ===== *)
theory RunEndpoint
  imports ThreadIndex Context
begin

text \<open>
  \<open>agent/agui_view.py\<close>: the endpoint that serves a run. Three parts: what a request goes
  through before a session exists, resume and fork included; the tools and capabilities a run
  is given, with the precedence that keeps their names apart; and the model and instructions it
  runs with. The body parser, the step store's \<open>continue_run\<close> and \<open>get_run\<close>, the limiter and
  the conversation store are parameters.
\<close>

section \<open>Serving a request\<close>

record run_input =
  ri_thread_id :: string
  ri_run_id :: string
  ri_messages :: "message list"
  ri_context :: "context_item list"

text \<open>
  What reading a prior run can come to: \<open>LookupError\<close>, anything else raised, or its history.
  \<open>so_run_thread\<close> is \<open>get_run\<close>, \<open>None\<close> where there is no record, else the record's thread.
\<close>

datatype 'h continued = NotContinuable | ContinueRaises string | Continues 'h

record ('h, 's) step_ops =
  so_continue :: "http_request \<Rightarrow> string \<Rightarrow> 's \<Rightarrow> 'h continued"
  so_run_thread :: "http_request \<Rightarrow> string \<Rightarrow> 's \<Rightarrow> string option option"

text \<open>\<open>co_is_null\<close> is the test for \<open>NullConversationStore\<close>.\<close>

record 's thread_ops =
  co_is_null :: bool
  co_load :: "string \<Rightarrow> http_request \<Rightarrow> 's \<Rightarrow> raised + conversation option"
  co_exists :: "string \<Rightarrow> http_request \<Rightarrow> 's \<Rightarrow> raised + bool"

record ('h, 's) endpoint =
  ep_deny :: "http_request \<Rightarrow> nat option"
  ep_throttle :: "(http_request \<Rightarrow> 's \<Rightarrow> int option \<times> 's) option"
  ep_parse :: "ustr \<Rightarrow> nat + run_input"
  ep_steps :: "('h, 's) step_ops option"
  ep_threads :: "'s thread_ops"
  ep_row_parse :: "json \<Rightarrow> message list option"

record 'h run_plan =
  rp_input :: run_input
  rp_history :: "'h option"
  rp_source_messages :: "message list option"

text \<open>\<open>_source_thread_id\<close>: only a store that persists has anything a resume could overwrite.\<close>

definition source_thread_id ::
    "('h, 's) endpoint \<Rightarrow> ('h, 's) step_ops \<Rightarrow> http_request \<Rightarrow> string \<Rightarrow> 's \<Rightarrow> string option" where
  "source_thread_id ep steps rq resume_from s =
     (if co_is_null (ep_threads ep) then None
      else case so_run_thread steps rq resume_from s of None \<Rightarrow> None | Some thread \<Rightarrow> thread)"

definition load_resume_history ::
    "('h, 's) endpoint \<Rightarrow> http_request \<Rightarrow> string \<Rightarrow> 's \<Rightarrow> string + ('h \<times> string option) option" where
  "load_resume_history ep rq resume_from s =
     (case ep_steps ep of
        None \<Rightarrow> Inr None
      | Some steps \<Rightarrow>
          (case so_continue steps rq resume_from s of
             NotContinuable \<Rightarrow> Inr None
           | ContinueRaises e \<Rightarrow> Inl e
           | Continues history \<Rightarrow> Inr (Some (history, source_thread_id ep steps rq resume_from s))))"

definition would_overwrite_another_thread ::
    "('h, 's) endpoint \<Rightarrow> http_request \<Rightarrow> string option \<Rightarrow> string \<Rightarrow> 's \<Rightarrow> raised + bool" where
  "would_overwrite_another_thread ep rq source thread_id s =
     (if source = None \<or> source = Some thread_id then Inr False
      else co_exists (ep_threads ep) thread_id rq s)"

definition source_messages ::
    "('h, 's) endpoint \<Rightarrow> http_request \<Rightarrow> string option \<Rightarrow> 's \<Rightarrow> string + message list option" where
  "source_messages ep rq source s =
     (case source of
        None \<Rightarrow> Inr None
      | Some thread \<Rightarrow>
          (case co_load (ep_threads ep) thread rq s of
             Inl AnonymousOperation \<Rightarrow> Inr None
           | Inl (Unhandled e) \<Rightarrow> Inl e
           | Inr None \<Rightarrow> Inr None
           | Inr (Some c) \<Rightarrow> Inr (ep_row_parse ep (cv_messages c))))"

definition invalid_input :: "nat \<Rightarrow> 'b response" where
  "invalid_input n = JsonResponse 400 []
     (json_obj [(''error'', JStr (ustr ''invalid RunAgentInput'')), (''error_count'', JInt (int n))])"

definition no_resumable_run :: "string \<Rightarrow> 'b response" where
  "no_resumable_run r = JsonResponse 404 []
     (json_obj [(''error'', JStr (ustr ''no resumable run'')), (''run_id'', JStr (ustr r))])"

definition would_overwrite :: "string \<Rightarrow> string \<Rightarrow> 'b response" where
  "would_overwrite r thread = JsonResponse 409 []
     (json_obj [(''error'', JStr (ustr ''resuming that run would overwrite this thread'')),
                (''run_id'', JStr (ustr r)), (''thread_id'', JStr (ustr thread))])"

definition event_stream :: "'h run_plan \<Rightarrow> 'h run_plan response" where
  "event_stream plan = Serves [(''Cache-Control'', ustr ''no-cache''), (''X-Accel-Buffering'', ustr ''no'')] plan"

definition prepare_run ::
    "('h, 's) endpoint \<Rightarrow> string option \<Rightarrow> http_request \<Rightarrow> run_input \<Rightarrow> 's \<Rightarrow> string + 'h run_plan response" where
  "prepare_run ep resume_from rq ri s =
     (case resume_from of
        None \<Rightarrow> Inr (event_stream \<lparr>rp_input = ri, rp_history = None, rp_source_messages = None\<rparr>)
      | Some r \<Rightarrow>
          bind_result (load_resume_history ep rq r s) (\<lambda>loaded.
            case loaded of
              None \<Rightarrow> Inr (no_resumable_run r)
            | Some (history, source) \<Rightarrow>
                (case would_overwrite_another_thread ep rq source (ri_thread_id ri) s of
                   Inl AnonymousOperation \<Rightarrow> Inl ''AnonymousOperationError''
                 | Inl (Unhandled e) \<Rightarrow> Inl e
                 | Inr True \<Rightarrow> Inr (would_overwrite r (ri_thread_id ri))
                 | Inr False \<Rightarrow>
                     bind_result (source_messages ep rq source s) (\<lambda>ms.
                       Inr (event_stream
                         \<lparr>rp_input = ri, rp_history = Some history, rp_source_messages = ms\<rparr>)))))"

definition agui_view ::
    "('h, 's) endpoint \<Rightarrow> string option \<Rightarrow> http_request \<Rightarrow> 's \<Rightarrow> (string + 'h run_plan response) \<times> 's" where
  "agui_view ep resume_from rq s =
     (case ep_deny ep rq of
        Some st \<Rightarrow> (Inr (AuthError st), s)
      | None \<Rightarrow>
          if rq_method rq \<noteq> ''POST'' then (Inr (NotAllowed [''POST'']), s)
          else case throttled (ep_throttle ep) rq s of
            (Some refusal, s1) \<Rightarrow> (Inr refusal, s1)
          | (None, s1) \<Rightarrow>
              (case ep_parse ep (rq_body rq) of
                 Inl n \<Rightarrow> (Inr (invalid_input n), s1)
               | Inr ri \<Rightarrow> (prepare_run ep resume_from rq ri s1, s1)))"

declare agui_view_def [view_defs]

interpretation run_gate: routed_view "ep_deny ep" "agui_view ep resume_from" "[''POST'']" for ep resume_from
  by unfold_locales (simp_all add: view_defs)

section \<open>A resume destroys nothing\<close>

text \<open>What may be overwritten: nothing, unless the run stays in its own thread.\<close>

definition harmless ::
    "('h, 's) endpoint \<Rightarrow> http_request \<Rightarrow> string \<Rightarrow> string \<Rightarrow> 's \<Rightarrow> bool" where
  "harmless ep rq r thread s \<longleftrightarrow>
     (case ep_steps ep of
        None \<Rightarrow> False
      | Some steps \<Rightarrow>
          (case source_thread_id ep steps rq r s of
             None \<Rightarrow> True
           | Some source \<Rightarrow> source = thread \<or> co_exists (ep_threads ep) thread rq s = Inr False))"

text \<open>What a stream that is served was prepared from.\<close>

definition seeded_from ::
    "('h, 's) endpoint \<Rightarrow> string option \<Rightarrow> http_request \<Rightarrow> 'h run_plan \<Rightarrow> 's \<Rightarrow> bool" where
  "seeded_from ep resume_from rq plan s \<longleftrightarrow>
     (case resume_from of
        None \<Rightarrow> rp_history plan = None
      | Some r \<Rightarrow>
          (case ep_steps ep of
             None \<Rightarrow> False
           | Some steps \<Rightarrow>
               (case rp_history plan of
                  None \<Rightarrow> False
                | Some h \<Rightarrow> so_continue steps rq r s = Continues h))
          \<and> harmless ep rq r (ri_thread_id (rp_input plan)) s)"

lemma refusals_do_not_stream [simp]:
  "invalid_input n \<noteq> Serves hs p" "no_resumable_run r \<noteq> Serves hs p"
  "would_overwrite r thread \<noteq> Serves hs p"
  by (simp_all add: invalid_input_def no_resumable_run_def would_overwrite_def)

lemma loaded_history:
  "load_resume_history ep rq r s = Inr (Some (h, source)) \<longleftrightarrow>
     (\<exists>steps. ep_steps ep = Some steps \<and> so_continue steps rq r s = Continues h
        \<and> source = source_thread_id ep steps rq r s)"
  by (auto simp: load_resume_history_def split: option.splits continued.splits)

lemma not_overwriting:
  "would_overwrite_another_thread ep rq source thread s = Inr False \<longleftrightarrow>
     (case source of None \<Rightarrow> True
      | Some t \<Rightarrow> t = thread \<or> co_exists (ep_threads ep) thread rq s = Inr False)"
  by (auto simp: would_overwrite_another_thread_def split: option.splits)

lemma prepare_run_streams:
  assumes "prepare_run ep resume_from rq ri s = Inr (Serves hs plan)"
  shows "rp_input plan = ri \<and> seeded_from ep resume_from rq plan s"
proof (cases resume_from)
  case None
  with assms show ?thesis by (auto simp: prepare_run_def event_stream_def seeded_from_def)
next
  case (Some r)
  then obtain loaded where l': "load_resume_history ep rq r s = Inr loaded"
    using assms by (auto simp: prepare_run_def dest: bind_result_InrD)
  then have "loaded \<noteq> None"
    using assms Some by (cases loaded) (auto simp: prepare_run_def)
  then obtain h source where l: "load_resume_history ep rq r s = Inr (Some (h, source))"
    using l' by auto
  have f: "would_overwrite_another_thread ep rq source (ri_thread_id ri) s = Inr False"
    using assms Some l
    by (auto simp: prepare_run_def split: sum.splits raised.splits bool.splits)
  have p: "rp_input plan = ri" "rp_history plan = Some h"
    using assms Some l f
    by (auto simp: prepare_run_def bind_result_Inr event_stream_def)
  show ?thesis
    using Some l f p unfolding loaded_history not_overwriting
    by (auto simp: seeded_from_def harmless_def split: option.splits)
qed

lemma throttled_passes:
  "throttled throttle rq s = (None :: 'a response option, s') \<longleftrightarrow>
     (case throttle of None \<Rightarrow> s' = s | Some consume \<Rightarrow> consume rq s = (None, s'))"
  by (auto simp: throttled_def split: option.splits prod.splits)

lemma throttled_does_not_stream [simp]:
  "throttled throttle rq s \<noteq> (Some (Serves hs p), s')"
  by (auto simp: throttled_def split: option.splits prod.splits)


end
