(* ===== verification/Config.thy ===== *)
theory Config
  imports AgentSession ThreadIndex Uploads "HOL-Library.List_Lexorder" "HOL-Library.Char_ord"
begin

text \<open>
  The scalar configuration of an endpoint: \<open>conf.py\<close>, \<open>config/build_ag_ui_config.py\<close> and
  \<open>config/types/ag_ui_config.py\<close>, and the checks an endpoint makes when it is constructed,
  \<open>check_removed_settings.py\<close>, \<open>check_no_dotted_paths.py\<close>, \<open>resolve_csrf_exempt.py\<close> and
  \<open>warn_if_csrf_unstated.py\<close>. A settings value is JSON-like data or an opaque object (a
  pre-built model). How Python renders a value as text, reads a float from text, and which
  characters are digits are the parameters \<open>repr_of\<close>, \<open>read_float\<close> and \<open>digit\<close>.
\<close>

section \<open>Values and their conversions\<close>

datatype 'm py = Py json | Object 'm

abbreviation py_none :: "'m py" where
  "py_none \<equiv> Py JNull"

type_synonym 'm settings = "(string \<times> 'm py) list"

record conversions =
  cv_digit :: "nat \<Rightarrow> nat option"
  cv_read_float :: "ustr \<Rightarrow> rat option"
  cv_repr :: "json \<Rightarrow> ustr"

definition py_bool :: "'m py \<Rightarrow> bool" where
  "py_bool v = (case v of Py j \<Rightarrow> truthy j | Object _ \<Rightarrow> True)"

definition to_int :: "conversions \<Rightarrow> 'm py \<Rightarrow> string + int" where
  "to_int cv v =
     (case v of
        Py (JInt i) \<Rightarrow> Inr i
      | Py (JBool b) \<Rightarrow> Inr (if b then 1 else 0)
      | Py (JFloat r) \<Rightarrow> Inr (if r < 0 then \<lceil>r\<rceil> else \<lfloor>r\<rfloor>)
      | Py (JStr t) \<Rightarrow> (case py_int (cv_digit cv) t of None \<Rightarrow> Inl ''ValueError'' | Some i \<Rightarrow> Inr i)
      | _ \<Rightarrow> Inl ''TypeError'')"

definition to_float :: "conversions \<Rightarrow> 'm py \<Rightarrow> string + rat" where
  "to_float cv v =
     (case v of
        Py (JInt i) \<Rightarrow> Inr (of_int i)
      | Py (JBool b) \<Rightarrow> Inr (if b then 1 else 0)
      | Py (JFloat r) \<Rightarrow> Inr r
      | Py (JStr t) \<Rightarrow> (case cv_read_float cv t of None \<Rightarrow> Inl ''ValueError'' | Some r \<Rightarrow> Inr r)
      | _ \<Rightarrow> Inl ''TypeError'')"

definition to_str :: "conversions \<Rightarrow> json \<Rightarrow> ustr" where
  "to_str cv v = (case v of JStr t \<Rightarrow> t | _ \<Rightarrow> cv_repr cv v)"

text \<open>
  Iterating a value that is not falsy: the items of a list, the characters of a string, the
  keys of a dictionary.
\<close>

definition items_of :: "'m py \<Rightarrow> string + json list" where
  "items_of v =
     (if \<not> py_bool v then Inr []
      else case v of
        Py (JList xs) \<Rightarrow> Inr xs
      | Py (JStr t) \<Rightarrow> Inr (map (\<lambda>c. JStr [c]) t)
      | Py (JObj d) \<Rightarrow> Inr (map (\<lambda>k. JStr (ustr k)) (sorted_list_of_fset (fmdom d)))
      | _ \<Rightarrow> Inl ''TypeError'')"

definition hashable :: "json \<Rightarrow> bool" where
  "hashable j = (case j of JList _ \<Rightarrow> False | JObj _ \<Rightarrow> False | _ \<Rightarrow> True)"

definition to_frozenset :: "'m py \<Rightarrow> string + json set" where
  "to_frozenset v = bind_result (items_of v) (\<lambda>xs.
     if list_all hashable xs then Inr (canonical ` set xs) else Inl ''TypeError'')"

text \<open>\<open>dict(value or {})\<close> on a mapping; a list of pairs is not modelled and is refused.\<close>

definition to_dict :: "'m py \<Rightarrow> string + dict" where
  "to_dict v =
     (if \<not> py_bool v then Inr fmempty
      else case v of Py (JObj d) \<Rightarrow> Inr d | _ \<Rightarrow> Inl ''TypeError'')"

section \<open>Reading the settings\<close>

definition get_setting :: "'m settings \<Rightarrow> string \<Rightarrow> 'm py \<Rightarrow> 'm py" where
  "get_setting s name dflt = (case map_of s name of None \<Rightarrow> dflt | Some v \<Rightarrow> v)"

definition pick :: "'m settings \<Rightarrow> 'm py \<Rightarrow> string \<Rightarrow> 'm py \<Rightarrow> 'm py" where
  "pick s override name dflt = (if override \<noteq> py_none then override else get_setting s name dflt)"

record tool_guard_config =
  tg_enabled :: bool
  tg_exempt :: "json set"
  tg_require_approval :: "json set"

record tool_failure_config =
  tf_enabled :: bool
  tf_include_detail :: bool

text \<open>\<open>d.get(key, default)\<close> of a settings dictionary, which is empty when it is falsy.\<close>

definition section_of :: "'m py \<Rightarrow> string + dict" where
  "section_of raw =
     (if \<not> py_bool raw then Inr fmempty
      else case raw of Py (JObj d) \<Rightarrow> Inr d | _ \<Rightarrow> Inl ''AttributeError'')"

definition entry :: "dict \<Rightarrow> string \<Rightarrow> json \<Rightarrow> json" where
  "entry d name dflt = (case fmlookup d name of None \<Rightarrow> dflt | Some v \<Rightarrow> v)"

definition parse_tool_guard :: "'m py \<Rightarrow> string + tool_guard_config" where
  "parse_tool_guard raw =
     bind_result (section_of raw) (\<lambda>guard.
     bind_result (to_frozenset (Py (entry guard ''EXEMPT'' (JList [])) :: unit py)) (\<lambda>exempt.
     bind_result (to_frozenset (Py (entry guard ''REQUIRE_APPROVAL'' (JList [])) :: unit py)) (\<lambda>required.
       Inr \<lparr>tg_enabled = truthy (entry guard ''ENABLED'' (JBool False)),
            tg_exempt = exempt, tg_require_approval = required\<rparr>)))"

definition parse_tool_failure :: "'m py \<Rightarrow> string + tool_failure_config" where
  "parse_tool_failure raw =
     bind_result (section_of raw) (\<lambda>failure.
       Inr \<lparr>tf_enabled = truthy (entry failure ''ENABLED'' (JBool True)),
            tf_include_detail = truthy (entry failure ''INCLUDE_DETAIL'' (JBool False))\<rparr>)"

definition read_delivery :: "ustr \<Rightarrow> delivery option" where
  "read_delivery t =
     (if t = ustr ''instructions'' then Some ToInstructions
      else if t = ustr ''tool'' then Some ToTool else None)"

definition parse_run_context ::
    "conversions \<Rightarrow> 'm py \<Rightarrow> string + run_context_config \<times> delivery" where
  "parse_run_context cv raw =
     bind_result (section_of raw) (\<lambda>rc.
       case read_delivery (to_str cv (entry rc ''DELIVERY'' (JStr (ustr ''instructions'')))) of
         None \<Rightarrow> Inl ''ImproperlyConfigured''
       | Some delivery \<Rightarrow>
           bind_result (to_int cv (Py (entry rc ''MAX_CHARS'' (JInt 20000)) :: unit py)) (\<lambda>max_chars.
             Inr (\<lparr>client_context = truthy (entry rc ''CLIENT_CONTEXT'' (JBool True)),
                   attachment_manifest = truthy (entry rc ''ATTACHMENT_MANIFEST'' (JBool True)),
                   max_context_chars = max_chars\<rparr>, delivery)))"

section \<open>The resolved configuration\<close>

record ('m, 'i) ag_ui_config =
  ac_model :: "'m py"
  ac_api_key :: "'m py"
  ac_system_prompt :: "'m py"
  ac_model_settings :: "'m py"
  ac_retries :: "'m py"
  ac_attachment_max_bytes :: int
  ac_attachment_allowed_types :: "json list"
  ac_attachment_inline :: "'i option"
  ac_manage_system_prompt :: ustr
  ac_allow_uploaded_files :: bool
  ac_forward_reasoning :: bool
  ac_transcription_max_bytes :: int
  ac_transcription_allowed_types :: "json list"
  ac_thread_list_limit :: int
  ac_run_list_limit :: int
  ac_heartbeat_seconds :: rat
  ac_approval_prompts :: dict
  ac_tool_guard :: tool_guard_config
  ac_tool_failure :: tool_failure_config
  ac_run_context :: "run_context_config \<times> delivery"

text \<open>The arguments, each \<open>None\<close> unless the caller overrides that field.\<close>

record ('m, 'i) overrides =
  ov_model :: "'m py"
  ov_api_key :: "'m py"
  ov_system_prompt :: "'m py"
  ov_model_settings :: "'m py"
  ov_retries :: "'m py"
  ov_attachment_max_bytes :: "'m py"
  ov_attachment_allowed_types :: "'m py"
  ov_attachment_inline :: "'i option"
  ov_manage_system_prompt :: "'m py"
  ov_allow_uploaded_files :: "'m py"
  ov_forward_reasoning :: "'m py"
  ov_transcription_max_bytes :: "'m py"
  ov_transcription_allowed_types :: "'m py"
  ov_thread_list_limit :: "'m py"
  ov_run_list_limit :: "'m py"
  ov_heartbeat_seconds :: "'m py"
  ov_approval_prompts :: "'m py"
  ov_tool_guard :: "tool_guard_config option"
  ov_tool_failure :: "tool_failure_config option"
  ov_run_context :: "(run_context_config \<times> delivery) option"

definition py_text :: "conversions \<Rightarrow> ('m \<Rightarrow> ustr) \<Rightarrow> 'm py \<Rightarrow> ustr" where
  "py_text cv obj_text v = (case v of Py j \<Rightarrow> to_str cv j | Object m \<Rightarrow> obj_text m)"

definition given_or :: "'a option \<Rightarrow> string + 'a \<Rightarrow> string + 'a" where
  "given_or override parsed = (case override of Some v \<Rightarrow> Inr v | None \<Rightarrow> parsed)"

definition build_ag_ui_config ::
    "conversions \<Rightarrow> ('m \<Rightarrow> ustr) \<Rightarrow> 'm settings \<Rightarrow> ('m, 'i) overrides \<Rightarrow> string + ('m, 'i) ag_ui_config" where
  "build_ag_ui_config cv obj_text s ov =
     bind_result (to_int cv (pick s (ov_attachment_max_bytes ov) ''ATTACHMENT_MAX_BYTES'' (Py (JInt 10485760)))) (\<lambda>attachment_max.
     bind_result (items_of (pick s (ov_attachment_allowed_types ov) ''ATTACHMENT_ALLOWED_TYPES'' (Py (JList [])))) (\<lambda>attachment_types.
     bind_result (to_int cv (pick s (ov_transcription_max_bytes ov) ''TRANSCRIPTION_MAX_BYTES'' (Py (JInt 26214400)))) (\<lambda>transcription_max.
     bind_result (items_of (pick s (ov_transcription_allowed_types ov) ''TRANSCRIPTION_ALLOWED_TYPES'' (Py (JList [])))) (\<lambda>transcription_types.
     bind_result (to_int cv (pick s (ov_thread_list_limit ov) ''THREAD_LIST_LIMIT'' (Py (JInt 200)))) (\<lambda>threads.
     bind_result (to_int cv (pick s (ov_run_list_limit ov) ''RUN_LIST_LIMIT'' (Py (JInt 50)))) (\<lambda>runs.
     bind_result (to_float cv (pick s (ov_heartbeat_seconds ov) ''HEARTBEAT_SECONDS'' (Py (JFloat 15)))) (\<lambda>heartbeat.
     bind_result (to_dict (pick s (ov_approval_prompts ov) ''APPROVAL_PROMPTS'' (Py (JObj fmempty)))) (\<lambda>prompts.
     bind_result (given_or (ov_tool_guard ov) (parse_tool_guard (get_setting s ''TOOL_GUARD'' py_none))) (\<lambda>guard.
     bind_result (given_or (ov_tool_failure ov) (parse_tool_failure (get_setting s ''TOOL_FAILURE'' py_none))) (\<lambda>failure.
     bind_result (given_or (ov_run_context ov) (parse_run_context cv (get_setting s ''RUN_CONTEXT'' py_none))) (\<lambda>context.
       Inr \<lparr>ac_model = pick s (ov_model ov) ''MODEL'' py_none,
            ac_api_key = pick s (ov_api_key ov) ''API_KEY'' py_none,
            ac_system_prompt = pick s (ov_system_prompt ov) ''SYSTEM_PROMPT'' py_none,
            ac_model_settings = pick s (ov_model_settings ov) ''MODEL_SETTINGS'' py_none,
            ac_retries = pick s (ov_retries ov) ''RETRIES'' py_none,
            ac_attachment_max_bytes = attachment_max,
            ac_attachment_allowed_types = attachment_types,
            ac_attachment_inline = ov_attachment_inline ov,
            ac_manage_system_prompt =
              py_text cv obj_text (pick s (ov_manage_system_prompt ov) ''MANAGE_SYSTEM_PROMPT'' (Py (JStr (ustr ''server'')))),
            ac_allow_uploaded_files =
              py_bool (pick s (ov_allow_uploaded_files ov) ''ALLOW_UPLOADED_FILES'' (Py (JBool False))),
            ac_forward_reasoning =
              py_bool (pick s (ov_forward_reasoning ov) ''FORWARD_REASONING'' (Py (JBool True))),
            ac_transcription_max_bytes = transcription_max,
            ac_transcription_allowed_types = transcription_types,
            ac_thread_list_limit = threads,
            ac_run_list_limit = runs,
            ac_heartbeat_seconds = heartbeat,
            ac_approval_prompts = prompts,
            ac_tool_guard = guard,
            ac_tool_failure = failure,
            ac_run_context = context\<rparr>)))))))))))"

section \<open>What construction refuses\<close>

definition removed_settings :: "(string \<times> string) list" where
  "removed_settings =
     [(''AGENT_FACTORY'', ''pass agent_factory=your_factory to AGUIServer(...)''),
      (''TOOLSETS'', ''pass toolsets=[YourToolset()] to AGUIServer(...)''),
      (''CAPABILITIES'', ''pass capabilities=[YourCapability()] to AGUIServer(...)''),
      (''AUDIT_LOGGER'', ''pass audit_logger=YourLogger() to AGUIServer(...)''),
      (''CONVERSATION_STORE'', ''pass conversation_store=YourStore() to AGUIServer(...)''),
      (''ATTACHMENT_STORE'', ''pass attachment_store=YourStore() to AGUIServer(...)''),
      (''TRANSCRIPTION_BACKEND'', ''pass transcription_backend=YourBackend() to AGUIServer(...)''),
      (''DRF_MCP_SERVER'', ''pass a django-spec-mcp server as mcp_server= to AGUIServer(...)''),
      (''SERVICE_SPECS'', ''pass service_specs={...} to AGUIServer(...)''),
      (''PROVIDER'', ''pass provider=YourProvider() to AGUIServer(...)'')]"

definition never_read_settings :: "(string \<times> string) list" where
  "never_read_settings =
     [(''ALLOW_ANONYMOUS'', ''never a setting of this package'')]"

definition known_settings :: "string list" where
  "known_settings =
     [''ALLOW_UPLOADED_FILES'', ''API_KEY'', ''APPROVAL_PROMPTS'', ''ATTACHMENT_ALLOWED_TYPES'',
      ''ATTACHMENT_MAX_BYTES'', ''FORWARD_REASONING'', ''HEARTBEAT_SECONDS'', ''MANAGE_SYSTEM_PROMPT'',
      ''MODEL'', ''MODEL_SETTINGS'', ''RETRIES'', ''RUN_CONTEXT'', ''RUN_LIST_LIMIT'', ''SYSTEM_PROMPT'',
      ''THREAD_LIST_LIMIT'', ''TOOL_FAILURE'', ''TOOL_GUARD'', ''TRANSCRIPTION_ALLOWED_TYPES'',
      ''TRANSCRIPTION_MAX_BYTES'']"

definition advice :: "string \<Rightarrow> string" where
  "advice name =
     (case map_of removed_settings name of
        Some how \<Rightarrow> ''removed in 0.19.0, '' @ how
      | None \<Rightarrow>
          (case map_of never_read_settings name of
             Some why \<Rightarrow> why
           | None \<Rightarrow> ''not a django-ag-ui setting''))"

text \<open>The error names every rejected key in order, each with its advice.\<close>

definition check_removed_settings :: "'m settings \<Rightarrow> (string \<times> string) list + unit" where
  "check_removed_settings s =
     (let rejected = map (\<lambda>name. (name, advice name))
                       (sort (filter (\<lambda>name. name \<notin> set known_settings) (map fst s)))
      in if rejected = [] then Inr () else Inl rejected)"

text \<open>A constructor argument: a string, a list or tuple (which items are strings), else.\<close>

datatype argument = NameArgument | SequenceArgument "bool list" | ObjectArgument

primrec names_a_path :: "argument \<Rightarrow> bool" where
  "names_a_path NameArgument = True"
| "names_a_path (SequenceArgument is_str) = (True \<in> set is_str)"
| "names_a_path ObjectArgument = False"

definition check_no_dotted_paths :: "(string \<times> argument) list \<Rightarrow> string list + unit" where
  "check_no_dotted_paths collaborators =
     (let named = sort (map fst (filter (\<lambda>c. names_a_path (snd c)) collaborators))
      in if named = [] then Inr () else Inl named)"

definition resolve_csrf_exempt :: "bool option \<Rightarrow> bool" where
  "resolve_csrf_exempt csrf_exempt = (case csrf_exempt of None \<Rightarrow> True | Some b \<Rightarrow> b)"

definition warns_csrf_unstated :: "bool option \<Rightarrow> 'h option \<Rightarrow> bool" where
  "warns_csrf_unstated csrf_exempt get_user \<longleftrightarrow> csrf_exempt = None \<and> get_user = None"

section \<open>Every accepted key is read\<close>

definition no_overrides :: "('m, 'i) overrides" where
  "no_overrides = \<lparr>ov_model = py_none, ov_api_key = py_none, ov_system_prompt = py_none,
     ov_model_settings = py_none, ov_retries = py_none, ov_attachment_max_bytes = py_none,
     ov_attachment_allowed_types = py_none, ov_attachment_inline = None,
     ov_manage_system_prompt = py_none, ov_allow_uploaded_files = py_none,
     ov_forward_reasoning = py_none, ov_transcription_max_bytes = py_none,
     ov_transcription_allowed_types = py_none, ov_thread_list_limit = py_none,
     ov_run_list_limit = py_none, ov_heartbeat_seconds = py_none, ov_approval_prompts = py_none,
     ov_tool_guard = None, ov_tool_failure = None, ov_run_context = None\<rparr>"

text \<open>What the builder makes of one setting on its own, and whether a key matters to it at all.\<close>

definition plain_conversions :: conversions where
  "plain_conversions = \<lparr>cv_digit = (\<lambda>_. None), cv_read_float = (\<lambda>_. None), cv_repr = (\<lambda>_. [])\<rparr>"

definition configured :: "unit settings \<Rightarrow> string + (unit, unit) ag_ui_config" where
  "configured s = build_ag_ui_config plain_conversions (\<lambda>_. []) s no_overrides"

definition affects :: "string \<Rightarrow> bool" where
  "affects name \<longleftrightarrow> (\<exists>s v. configured ((name, v) # s) \<noteq> configured s)"

lemma get_setting_Cons:
  "get_setting ((k, v) # s) name dflt = (if name = k then v else get_setting s name dflt)"
  by (simp add: get_setting_def)

lemma get_setting_Nil [simp]: "get_setting [] name dflt = dflt"
  by (simp add: get_setting_def)

lemma known_members:
  "''ALLOW_UPLOADED_FILES'' \<in> set known_settings" "''API_KEY'' \<in> set known_settings"
  "''APPROVAL_PROMPTS'' \<in> set known_settings" "''ATTACHMENT_ALLOWED_TYPES'' \<in> set known_settings"
  "''ATTACHMENT_MAX_BYTES'' \<in> set known_settings" "''FORWARD_REASONING'' \<in> set known_settings"
  "''HEARTBEAT_SECONDS'' \<in> set known_settings" "''MANAGE_SYSTEM_PROMPT'' \<in> set known_settings"
  "''MODEL'' \<in> set known_settings" "''MODEL_SETTINGS'' \<in> set known_settings"
  "''RETRIES'' \<in> set known_settings" "''RUN_CONTEXT'' \<in> set known_settings"
  "''RUN_LIST_LIMIT'' \<in> set known_settings" "''SYSTEM_PROMPT'' \<in> set known_settings"
  "''THREAD_LIST_LIMIT'' \<in> set known_settings" "''TOOL_FAILURE'' \<in> set known_settings"
  "''TOOL_GUARD'' \<in> set known_settings" "''TRANSCRIPTION_ALLOWED_TYPES'' \<in> set known_settings"
  "''TRANSCRIPTION_MAX_BYTES'' \<in> set known_settings"
  by (simp_all add: known_settings_def)

lemma known_key_differs:
  assumes "k \<notin> set known_settings" and "name \<in> set known_settings"
  shows "get_setting ((k, v) # s) name dflt = get_setting s name dflt"
    and "pick ((k, v) # s) override name dflt = pick s override name dflt"
  using assms by (auto simp: get_setting_Cons pick_def)

lemma unknown_key_is_ignored:
  assumes "k \<notin> set known_settings"
  shows "build_ag_ui_config cv obj_text ((k, v) # s) ov = build_ag_ui_config cv obj_text s ov"
  by (simp only: build_ag_ui_config_def known_key_differs [OF assms] known_members)

lemmas conversion_defs = to_int_def to_float_def to_str_def items_of_def to_dict_def py_bool_def
  section_of_def parse_tool_guard_def parse_tool_failure_def parse_run_context_def entry_def
  to_frozenset_def read_delivery_def given_or_def py_text_def

lemma configured_single:
  "configured [(k, v)] = build_ag_ui_config plain_conversions (\<lambda>_. []) [(k, v)] no_overrides"
  by (simp add: configured_def)

lemma one_changes: "configured [(k, v)] \<noteq> configured [] \<Longrightarrow> affects k"
  by (auto simp: affects_def)

lemmas configured_simps = configured_def no_overrides_def build_ag_ui_config_def pick_def
  get_setting_Cons conversion_defs

lemma defaults_build: "\<exists>c. configured [] = Inr c"
  by (simp add: configured_simps cong: bind_result_weak)

lemma unreadable_setting_is_refused:
  "configured [(''ATTACHMENT_MAX_BYTES'', Object ())] = Inl ''TypeError''"
  "configured [(''TRANSCRIPTION_MAX_BYTES'', Object ())] = Inl ''TypeError''"
  "configured [(''THREAD_LIST_LIMIT'', Object ())] = Inl ''TypeError''"
  "configured [(''RUN_LIST_LIMIT'', Object ())] = Inl ''TypeError''"
  "configured [(''HEARTBEAT_SECONDS'', Object ())] = Inl ''TypeError''"
  "configured [(''APPROVAL_PROMPTS'', Object ())] = Inl ''TypeError''"
  "configured [(''ATTACHMENT_ALLOWED_TYPES'', Object ())] = Inl ''TypeError''"
  "configured [(''TRANSCRIPTION_ALLOWED_TYPES'', Object ())] = Inl ''TypeError''"
  "configured [(''TOOL_GUARD'', Object ())] = Inl ''AttributeError''"
  "configured [(''TOOL_FAILURE'', Object ())] = Inl ''AttributeError''"
  "configured [(''RUN_CONTEXT'', Object ())] = Inl ''AttributeError''"
  by (simp_all add: configured_simps cong: bind_result_weak)

lemma plain_setting_is_taken:
  "configured [(''MODEL'', Object ())] \<noteq> configured []"
  "configured [(''API_KEY'', Object ())] \<noteq> configured []"
  "configured [(''SYSTEM_PROMPT'', Object ())] \<noteq> configured []"
  "configured [(''MODEL_SETTINGS'', Object ())] \<noteq> configured []"
  "configured [(''RETRIES'', Object ())] \<noteq> configured []"
  "configured [(''MANAGE_SYSTEM_PROMPT'', Object ())] \<noteq> configured []"
  "configured [(''ALLOW_UPLOADED_FILES'', Object ())] \<noteq> configured []"
  "configured [(''FORWARD_REASONING'', Py (JBool False))] \<noteq> configured []"
  by (simp_all add: configured_simps cong: bind_result_weak)

lemma known_settings_matter: "k \<in> set known_settings \<Longrightarrow> affects k"
  using unreadable_setting_is_refused [THEN arg_cong, of "\<lambda>r. r = configured []"]
    plain_setting_is_taken defaults_build one_changes
  by (auto simp: known_settings_def)

lemma affects_known: "affects k \<longleftrightarrow> k \<in> set known_settings"
proof (cases "k \<in> set known_settings")
  case False
  then show ?thesis by (simp add: affects_def configured_def unknown_key_is_ignored)
qed (simp add: known_settings_matter)

lemma sort_Nil_iff [simp]: "sort xs = [] \<longleftrightarrow> xs = []"
  by (metis length_0_conv length_sort)

lemma nothing_rejected:
  "filter (\<lambda>name. \<not> affects name) (map fst s) = [] \<longleftrightarrow> fst ` set s \<subseteq> Collect affects"
  by (auto simp: filter_empty_conv)

text \<open>
  C36. An endpoint starts only on settings it reads: the check lets a settings dictionary through
  exactly when every key in it can make a difference to the resolved configuration, and
  otherwise names, in order, each key that cannot, whatever it is set to.
\<close>

theorem settings_are_read_or_refused:
  "check_removed_settings s =
     (if fst ` set s \<subseteq> Collect affects then Inr ()
      else Inl (map (\<lambda>name. (name, advice name)) (sort (filter (\<lambda>name. \<not> affects name) (map fst s)))))"
  using nothing_rejected [of s]
  by (simp add: check_removed_settings_def affects_known [symmetric] Let_def)

end
