(* ===== verification/RunParts.thy ===== *)
theory RunParts
  imports RunEndpoint Config
begin

text \<open>
  What the run endpoint of \<open>agent/agui_view.py\<close> hands a session: the tools, with the precedence
  that keeps their names apart, the model, the instructions and the dependencies. The MCP bridge
  (\<open>MCPToolset\<close>), the builder of the spec capability, the model builder and the agent builder
  belong to the substrate and are parameters.
\<close>

section \<open>The sources of tools\<close>

datatype source = Registry | McpServer | Specs | Attachments

record toolset =
  ts_source :: source
  ts_names :: "string list"

text \<open>
  What the constructor fixed: the registry's names, the server's whole registry, the flattened
  specs, whether they came as a pre-built capability, and whether uploads are on.
\<close>

record tool_config =
  tc_registry :: "string list"
  tc_mcp :: "string list option"
  tc_specs :: "string list option"
  tc_capability :: bool
  tc_attachments :: bool

definition registry_names :: "tool_config \<Rightarrow> string set" where
  "registry_names tc = set (tc_registry tc)"

definition mcp_names :: "tool_config \<Rightarrow> string set" where
  "mcp_names tc = (case tc_mcp tc of None \<Rightarrow> {} | Some names \<Rightarrow> set names)"

definition spec_names :: "tool_config \<Rightarrow> string set" where
  "spec_names tc = (case tc_specs tc of None \<Rightarrow> {} | Some names \<Rightarrow> set names)"

definition claimed_names :: "tool_config \<Rightarrow> string set" where
  "claimed_names tc = registry_names tc \<union> mcp_names tc"

text \<open>Each of these returns its toolsets with the names seen so far, its own added.\<close>

definition mcp_toolsets ::
    "(http_request \<Rightarrow> string set \<Rightarrow> string list) \<Rightarrow> tool_config \<Rightarrow> http_request \<Rightarrow> string set \<Rightarrow>
     toolset list \<times> string set" where
  "mcp_toolsets bridge tc rq seen =
     (case tc_mcp tc of
        None \<Rightarrow> ([], seen)
      | Some names \<Rightarrow> ([\<lparr>ts_source = McpServer, ts_names = bridge rq seen\<rparr>], seen \<union> set names))"

definition spec_capabilities ::
    "(string set \<Rightarrow> string list) \<Rightarrow> tool_config \<Rightarrow> string set \<Rightarrow> toolset list \<times> string set" where
  "spec_capabilities build tc seen =
     (if tc_capability tc then
        ([\<lparr>ts_source = Specs, ts_names = (case tc_specs tc of None \<Rightarrow> [] | Some names \<Rightarrow> names)\<rparr>],
         seen \<union> spec_names tc)
      else case tc_specs tc of
        None \<Rightarrow> ([], seen)
      | Some names \<Rightarrow> ([\<lparr>ts_source = Specs, ts_names = build seen\<rparr>], seen \<union> set names))"

definition read_attachment :: string where
  "read_attachment = ''read_attachment''"

definition attachment_toolsets :: "tool_config \<Rightarrow> string set \<Rightarrow> toolset list \<times> string set" where
  "attachment_toolsets tc seen =
     (if \<not> tc_attachments tc \<or> read_attachment \<in> seen then ([], seen)
      else ([\<lparr>ts_source = Attachments, ts_names = [read_attachment]\<rparr>], insert read_attachment seen))"

text \<open>\<open>_run_toolsets\<close>: the bridge starts from the registry's names, not from the claimed ones.\<close>

definition endpoint_toolsets ::
    "(http_request \<Rightarrow> string set \<Rightarrow> string list) \<Rightarrow> tool_config \<Rightarrow> http_request \<Rightarrow> toolset list" where
  "endpoint_toolsets bridge tc rq =
     (case mcp_toolsets bridge tc rq (registry_names tc) of
        (toolsets, seen) \<Rightarrow> toolsets @ fst (attachment_toolsets tc (seen \<union> spec_names tc)))"

text \<open>
  What the reused agent carries of the endpoint's own: the registry's tools and the spec
  capability.
\<close>

definition registry_toolset :: "tool_config \<Rightarrow> toolset" where
  "registry_toolset tc = \<lparr>ts_source = Registry, ts_names = tc_registry tc\<rparr>"

definition agent_toolsets :: "(string set \<Rightarrow> string list) \<Rightarrow> tool_config \<Rightarrow> toolset list" where
  "agent_toolsets build tc =
     registry_toolset tc # fst (spec_capabilities build tc (claimed_names tc))"

text \<open>
  \<open>_reject_spec_name_collisions\<close> of \<open>agui_server.py\<close>, which the server runs on a pre-built
  capability: the names it shares with an earlier source, each with the first to claim it.
\<close>

definition claims :: "string list \<Rightarrow> string list option \<Rightarrow> (string \<times> source) list" where
  "claims registry mcp =
     fold (\<lambda>name. setdefault name McpServer) (case mcp of None \<Rightarrow> [] | Some names \<Rightarrow> names)
       (fold (\<lambda>name. AList.update name Registry) registry [])"

definition reject_spec_name_collisions ::
    "string list \<Rightarrow> string list \<Rightarrow> string list option \<Rightarrow> (string \<times> source) list + unit" where
  "reject_spec_name_collisions specs registry mcp =
     (let claimed = claims registry mcp;
          clashing = sorted_list_of_set (set specs \<inter> fst ` set claimed)
      in if clashing = [] then Inr ()
         else Inl (map (\<lambda>name. (name, the (map_of claimed name))) clashing))"

section \<open>Model, instructions and dependencies\<close>

definition default_system_prompt :: ustr where
  "default_system_prompt =
     ustr ''You are an assistant embedded in a web application. You can call tools to read ''
     @ ustr ''data and to drive the user interface on the user's behalf. Prefer the most ''
     @ ustr ''specific tool available. The application, not you, decides which actions need ''
     @ ustr ''an explicit confirmation from the user: where one is needed it interrupts the ''
     @ ustr ''call and comes back to you with the answer, so treat a tool call as a request ''
     @ ustr ''the application may still refuse rather than as something you have already ''
     @ ustr ''done. Do not re-ask in text for an action the user has clearly asked for. When ''
     @ ustr ''a destructive or irreversible action is NOT clearly covered by what the user ''
     @ ustr ''asked for, say what you are about to do and wait for them to agree before ''
     @ ustr ''calling the tool. Briefly state what you are doing. When the user refers to ''
     @ ustr ''something by name, use a listing or search tool's arguments to find it and then ''
     @ ustr ''act on the result ''
     @ [8212]
     @ ustr '' don't stop after the lookup. Treat 'open', 'go to', or 'show me' as a request ''
     @ ustr ''to navigate. Always finish your turn with a short reply or a completed action ''
     @ [8212]
     @ ustr '' never an empty turn. Keep replies concise.''"

record deps =
  dp_user :: "string option"
  dp_ip_address :: "string option"
  dp_request :: http_request

record ('m, 'i, 'p, 'a, 'o) view_args =
  va_tools :: tool_config
  va_model :: "'m py"
  va_instructions :: "ustr option"
  va_model_for_request :: "(http_request \<Rightarrow> 'm py) option"
  va_instructions_for_request :: "(http_request \<Rightarrow> ustr) option"
  va_provider :: "'p option"
  va_agent_factory :: "(string + 'a) option"
  va_deps_factory :: "(http_request \<Rightarrow> deps) option"
  va_has_steps :: bool
  va_audit_logger :: "'o option"
  va_toolsets :: "'o list option"
  va_capabilities :: "'o list option"
  va_config :: "('m, 'i) ag_ui_config"

type_synonym ('m, 'p) model_builder = "ustr \<Rightarrow> 'm py \<Rightarrow> 'p option \<Rightarrow> string + 'm"

definition resolve_model_value ::
    "('m, 'p) model_builder \<Rightarrow> ('m, 'i, 'p, 'a, 'o) view_args \<Rightarrow> 'm py \<Rightarrow> string + 'm py" where
  "resolve_model_value build_model va v =
     (case v of
        Py (JStr name) \<Rightarrow>
          if ac_api_key (va_config va) \<noteq> py_none \<or> va_provider va \<noteq> None
          then bind_result (build_model name (ac_api_key (va_config va)) (va_provider va)) (\<lambda>m. Inr (Object m))
          else Inr v
      | _ \<Rightarrow> Inr v)"

definition resolve_model :: "('m, 'p) model_builder \<Rightarrow> ('m, 'i, 'p, 'a, 'o) view_args \<Rightarrow> string + 'm py" where
  "resolve_model build_model va =
     (let model = (if va_model va \<noteq> py_none then va_model va else ac_model (va_config va)) in
      if model = py_none then Inl ''ImproperlyConfigured'' else resolve_model_value build_model va model)"

definition require_a_model :: "('m, 'p) model_builder \<Rightarrow> ('m, 'i, 'p, 'a, 'o) view_args \<Rightarrow> string + unit" where
  "require_a_model build_model va =
     (if va_agent_factory va \<noteq> None \<or> va_model_for_request va \<noteq> None then Inr ()
      else bind_result (resolve_model build_model va) (\<lambda>_. Inr ()))"

definition run_model ::
    "('m, 'p) model_builder \<Rightarrow> ('m, 'i, 'p, 'a, 'o) view_args \<Rightarrow> http_request \<Rightarrow> string + 'm py" where
  "run_model build_model va rq =
     (case va_model_for_request va of
        None \<Rightarrow> Inr py_none
      | Some f \<Rightarrow> resolve_model_value build_model va (f rq))"

definition resolve_instructions ::
    "conversions \<Rightarrow> ('m \<Rightarrow> ustr) \<Rightarrow> ('m, 'i, 'p, 'a, 'o) view_args \<Rightarrow> ustr" where
  "resolve_instructions cv obj_text va =
     (case va_instructions va of
        Some t \<Rightarrow> t
      | None \<Rightarrow>
          if py_bool (ac_system_prompt (va_config va)) then py_text cv obj_text (ac_system_prompt (va_config va))
          else default_system_prompt)"

definition instructions_of_run ::
    "conversions \<Rightarrow> ('m \<Rightarrow> ustr) \<Rightarrow> ('m, 'i, 'p, 'a, 'o) view_args \<Rightarrow> http_request \<Rightarrow> ustr" where
  "instructions_of_run cv obj_text va rq =
     (case va_instructions_for_request va of
        Some f \<Rightarrow> f rq
      | None \<Rightarrow> resolve_instructions cv obj_text va)"

definition build_deps :: "('m, 'i, 'p, 'a, 'o) view_args \<Rightarrow> http_request \<Rightarrow> deps" where
  "build_deps va rq =
     (case va_deps_factory va of
        Some f \<Rightarrow> f rq
      | None \<Rightarrow> \<lparr>dp_user = rq_user rq, dp_ip_address = rq_remote_addr rq, dp_request = rq\<rparr>)"

section \<open>The agent and the run\<close>

text \<open>
  What the agent builder is handed. It carries no instructions: those ride the run. The caller's
  own toolsets and capabilities go through unchanged; no audit logger stands for the null one.
\<close>

datatype 'o agent_capability = Given 'o | SpecTools toolset

record ('m, 'o) agent_config =
  gc_registry :: toolset
  gc_model :: "'m py"
  gc_instructions :: "ustr option"
  gc_model_settings :: "'m py"
  gc_retries :: "'m py"
  gc_audit_logger :: "'o option"
  gc_toolsets :: "'o list"
  gc_capabilities :: "'o agent_capability list"
  gc_tool_guard :: tool_guard_config
  gc_tool_failure :: tool_failure_config

record ('m, 'p, 'a, 'o) substrate =
  sb_bridge :: "http_request \<Rightarrow> string set \<Rightarrow> string list"
  sb_specs :: "string set \<Rightarrow> string list"
  sb_model :: "('m, 'p) model_builder"
  sb_agent :: "('m, 'o) agent_config \<Rightarrow> string + 'a"
  sb_conversions :: conversions
  sb_text :: "'m \<Rightarrow> ustr"

definition build_agent ::
    "('m, 'p, 'a, 'o) substrate \<Rightarrow> ('m, 'i, 'p, 'a, 'o) view_args \<Rightarrow> string + 'a" where
  "build_agent sb va =
     (case va_agent_factory va of
        Some made \<Rightarrow> made
      | None \<Rightarrow>
          bind_result (resolve_model (sb_model sb) va) (\<lambda>model.
            sb_agent sb \<lparr>gc_registry = registry_toolset (va_tools va),
              gc_model = model, gc_instructions = None,
              gc_model_settings = ac_model_settings (va_config va), gc_retries = ac_retries (va_config va),
              gc_audit_logger = va_audit_logger va,
              gc_toolsets = (case va_toolsets va of None \<Rightarrow> [] | Some ts \<Rightarrow> ts),
              gc_capabilities = map Given (case va_capabilities va of None \<Rightarrow> [] | Some cs \<Rightarrow> cs)
                @ map SpecTools (fst (spec_capabilities (sb_specs sb) (va_tools va) (claimed_names (va_tools va)))),
              gc_tool_guard = ac_tool_guard (va_config va),
              gc_tool_failure = ac_tool_failure (va_config va)\<rparr>))"

text \<open>\<open>_agent\<close>: built on the first run and kept; a failed build is tried again by the next run.\<close>

definition the_agent ::
    "('m, 'p, 'a, 'o) substrate \<Rightarrow> ('m, 'i, 'p, 'a, 'o) view_args \<Rightarrow> 'a option \<Rightarrow> (string + 'a) \<times> 'a option" where
  "the_agent sb va built =
     (case built of
        Some agent \<Rightarrow> (Inr agent, built)
      | None \<Rightarrow> (case build_agent sb va of Inl e \<Rightarrow> (Inl e, None) | Inr agent \<Rightarrow> (Inr agent, Some agent)))"

record step_capability =
  sc_run_id :: string
  sc_parent_run_id :: "string option"

definition step_persistence_capabilities ::
    "('m, 'i, 'p, 'a, 'o) view_args \<Rightarrow> string \<Rightarrow> string option \<Rightarrow> step_capability list" where
  "step_persistence_capabilities va run_id resume_from =
     (if \<not> va_has_steps va then []
      else [\<lparr>sc_run_id = run_id, sc_parent_run_id = resume_from\<rparr>])"

record ('m, 'a) run_parts =
  pt_agent :: 'a
  pt_model :: "'m py"
  pt_instructions :: ustr
  pt_toolsets :: "toolset list"
  pt_capabilities :: "step_capability list"
  pt_deps :: deps

text \<open>The arguments of the session the view opens, evaluated in the order it writes them.\<close>

definition assemble_run ::
    "('m, 'p, 'a, 'o) substrate \<Rightarrow> ('m, 'i, 'p, 'a, 'o) view_args \<Rightarrow> http_request \<Rightarrow> run_input \<Rightarrow> string option \<Rightarrow>
     'a option \<Rightarrow> (string + ('m, 'a) run_parts) \<times> 'a option" where
  "assemble_run sb va rq ri resume_from built =
     (case the_agent sb va built of
        (agent, built') \<Rightarrow>
          (bind_result agent (\<lambda>a.
           bind_result (run_model (sb_model sb) va rq) (\<lambda>model.
             Inr \<lparr>pt_agent = a, pt_model = model,
                  pt_instructions = instructions_of_run (sb_conversions sb) (sb_text sb) va rq,
                  pt_toolsets = endpoint_toolsets (sb_bridge sb) (va_tools va) rq,
                  pt_capabilities = step_persistence_capabilities va (ri_run_id ri) resume_from,
                  pt_deps = build_deps va rq\<rparr>)), built'))"

section \<open>No two tools of a run share a name\<close>

definition tools_of :: "toolset list \<Rightarrow> (source \<times> string) list" where
  "tools_of ts = concat (map (\<lambda>t. map (Pair (ts_source t)) (ts_names t)) ts)"

text \<open>The first source to claim a name, in the precedence of the catalog.\<close>

definition claimant :: "tool_config \<Rightarrow> string \<Rightarrow> source option" where
  "claimant tc name =
     (if name \<in> registry_names tc then Some Registry
      else if name \<in> mcp_names tc then Some McpServer
      else if name \<in> spec_names tc then Some Specs
      else if tc_attachments tc \<and> name = read_attachment then Some Attachments
      else None)"

text \<open>
  What the substrate documents: the bridge offers the caller's tools of the server and the
  builder the specs, each less the excluded names and none twice.
\<close>

definition excludes :: "(string set \<Rightarrow> string list) \<Rightarrow> string set \<Rightarrow> bool" where
  "excludes build names \<longleftrightarrow> (\<forall>seen. distinct (build seen) \<and> set (build seen) = names - seen)"

lemma excludesD: "excludes build names \<Longrightarrow> distinct (build seen) \<and> set (build seen) = names - seen"
  by (simp add: excludes_def)

definition own_names :: "tool_config \<Rightarrow> bool" where
  "own_names tc \<longleftrightarrow> distinct (tc_registry tc)
     \<and> (case tc_specs tc of None \<Rightarrow> True | Some names \<Rightarrow> distinct names)"

text \<open>What the server checked when the specs came pre-built.\<close>

definition accepted :: "tool_config \<Rightarrow> bool" where
  "accepted tc \<longleftrightarrow> tc_capability tc \<longrightarrow>
     reject_spec_name_collisions (case tc_specs tc of None \<Rightarrow> [] | Some names \<Rightarrow> names)
       (tc_registry tc) (tc_mcp tc) = Inr ()"

lemma keys_fold_update: "fst ` set (fold (\<lambda>n. AList.update n (f n)) ns d) = fst ` set d \<union> set ns"
  by (induction ns arbitrary: d) (auto simp: dom_update)

lemma keys_fold_setdefault: "fst ` set (fold (\<lambda>n. setdefault n v) ns d) = fst ` set d \<union> set ns"
  by (induction ns arbitrary: d) (auto simp: setdefault_def)

lemma claims_keys: "fst ` set (claims registry mcp) = set registry \<union> (case mcp of None \<Rightarrow> {} | Some ns \<Rightarrow> set ns)"
  by (auto simp: claims_def keys_fold_update keys_fold_setdefault split: option.split)

lemma accepted_iff: "accepted tc \<longleftrightarrow> (tc_capability tc \<longrightarrow> spec_names tc \<inter> claimed_names tc = {})"
  by (auto simp: accepted_def reject_spec_name_collisions_def Let_def claims_keys claimed_names_def
      registry_names_def mcp_names_def spec_names_def split: option.splits)

lemma tools_of_simps [simp]:
  "tools_of [] = []" "tools_of (t # ts) = map (Pair (ts_source t)) (ts_names t) @ tools_of ts"
  "tools_of (ts @ us) = tools_of ts @ tools_of us"
  by (simp_all add: tools_of_def)

lemma claimant_cases:
  "claimant tc name = Some src \<longleftrightarrow>
     (case src of
        Registry \<Rightarrow> name \<in> registry_names tc
      | McpServer \<Rightarrow> name \<in> mcp_names tc - registry_names tc
      | Specs \<Rightarrow> name \<in> spec_names tc - claimed_names tc
      | Attachments \<Rightarrow> tc_attachments tc \<and> name = read_attachment
          \<and> read_attachment \<notin> registry_names tc \<union> mcp_names tc \<union> spec_names tc)"
  by (cases src) (auto simp: claimant_def claimed_names_def)

lemma spec_tools:
  assumes "own_names tc" and "accepted tc" and "excludes build (spec_names tc)"
  obtains ns where "tools_of (fst (spec_capabilities build tc (claimed_names tc))) = map (Pair Specs) ns"
    and "distinct ns" and "set ns = spec_names tc - claimed_names tc"
proof (cases "tc_capability tc")
  case True
  let ?ns = "case tc_specs tc of None \<Rightarrow> [] | Some names \<Rightarrow> names"
  have "set ?ns = spec_names tc - claimed_names tc" "distinct ?ns"
    using True assms(1,2) unfolding accepted_iff own_names_def
    by (auto simp: spec_names_def split: option.splits)
  with True show ?thesis by (intro that [of ?ns]) (simp_all add: spec_capabilities_def)
next
  case False
  show ?thesis
  proof (cases "tc_specs tc")
    case None
    with False show ?thesis
      by (intro that [of "[]"]) (simp_all add: spec_capabilities_def spec_names_def)
  next
    case (Some names)
    with False excludesD [OF assms(3)] show ?thesis
      by (intro that [of "build (claimed_names tc)"]) (simp_all add: spec_capabilities_def)
  qed
qed

lemma bridged_tools:
  assumes "excludes (bridge rq) visible" and "visible \<subseteq> mcp_names tc"
  obtains ns where "mcp_toolsets bridge tc rq seen =
        (case tc_mcp tc of None \<Rightarrow> [] | Some _ \<Rightarrow> [\<lparr>ts_source = McpServer, ts_names = ns\<rparr>], seen \<union> mcp_names tc)"
    and "distinct ns" and "set ns = visible - seen"
  using assms(2) excludesD [OF assms(1), of seen]
  by (intro that [of "bridge rq seen"]) (auto simp: mcp_toolsets_def mcp_names_def split: option.splits)

lemma attachment_tools:
  obtains ns where "tools_of (fst (attachment_toolsets tc seen)) = map (Pair Attachments) ns"
    and "distinct ns" and "set ns = (if tc_attachments tc then {read_attachment} - seen else {})"
proof (cases "tc_attachments tc \<and> read_attachment \<notin> seen")
  case True
  then show ?thesis by (intro that [of "[read_attachment]"]) (auto simp: attachment_toolsets_def)
next
  case False
  then show ?thesis by (intro that [of "[]"]) (auto simp: attachment_toolsets_def)
qed


text \<open>
  The tool the session adds for \<open>DELIVERY: "tool"\<close> takes no part in that precedence: its name
  is reserved nowhere, so a source that defines it makes the run carry it twice.
\<close>

fun names_of_tool :: "toolset run_tool \<Rightarrow> string list" where
  "names_of_tool (EndpointTool ts) = ts_names ts"
| "names_of_tool (ClientContextTool _) = [client_context_tool_name]"

lemma names_of_endpoint_tools:
  "concat (map names_of_tool (map EndpointTool ts)) = map snd (tools_of ts)"
  by (induction ts) (simp_all add: comp_def)

theorem context_tool_name_is_not_reserved:
  assumes "ss_toolsets s = Some (endpoint_toolsets bridge tc rq)"
    and "delivery_of (ss_config s) = ToTool" and "client_context_block s = Some block"
    and "client_context_tool_name \<in> set (tc_registry tc)"
  shows "\<not> distinct (map snd (tools_of (agent_toolsets build tc))
    @ concat (map names_of_tool (case run_toolsets s of None \<Rightarrow> [] | Some ts \<Rightarrow> ts)))"
  using assms by (auto simp: run_toolsets_def agent_toolsets_def registry_toolset_def comp_def)

section \<open>A model hook alone\<close>

text \<open>
  Construction lets an endpoint through whose only model is the per-request hook, and then
  every run of it fails: the reused agent is built with the endpoint's own model first, and there
  is none. With a model configured, or passed, the hook's runs go through on whatever the hook
  names.
\<close>

theorem model_hook_alone_cannot_run:
  assumes "va_agent_factory va = None" and "va_model_for_request va = Some hook"
    and "\<forall>gc. \<exists>a. sb_agent sb gc = Inr a" and "\<forall>name key provider. \<exists>m. sb_model sb name key provider = Inr m"
  shows "require_a_model (sb_model sb) va = Inr ()
    \<and> ((\<exists>parts. fst (assemble_run sb va rq ri resume_from None) = Inr parts) \<longleftrightarrow>
        va_model va \<noteq> py_none \<or> ac_model (va_config va) \<noteq> py_none)"
proof -
  have resolved: "\<exists>m. resolve_model_value (sb_model sb) va v = Inr m" for v
    using assms(4) by (auto simp: resolve_model_value_def bind_result_Inr split: py.splits json.splits)
  obtain m where m: "resolve_model_value (sb_model sb) va (hook rq) = Inr m" using resolved by blast
  have "(\<exists>parts. fst (assemble_run sb va rq ri resume_from None) = Inr parts)
      \<longleftrightarrow> (\<exists>a. build_agent sb va = Inr a)"
    using m assms(2) by (auto simp: assemble_run_def the_agent_def run_model_def split: sum.splits)
  also have "\<dots> \<longleftrightarrow> (\<exists>m. resolve_model (sb_model sb) va = Inr m)"
    using assms(1,3) by (auto simp: build_agent_def bind_result_Inr)
  also have "\<dots> \<longleftrightarrow> va_model va \<noteq> py_none \<or> ac_model (va_config va) \<noteq> py_none"
    using resolved by (auto simp: resolve_model_def Let_def)
  finally show ?thesis
    using assms by (simp add: require_a_model_def)
qed

section \<open>Witnesses\<close>

definition two_sources :: tool_config where
  "two_sources = \<lparr>tc_registry = [''invite''], tc_mcp = Some [''invite'', ''search''],
     tc_specs = Some [''search'', ''export''], tc_capability = False, tc_attachments = True\<rparr>"

definition plain_request :: http_request where
  "plain_request = \<lparr>rq_method = ''POST'', rq_body = [], rq_query = Map.empty, rq_chunks = [],
     rq_files = [], rq_user = Some ''ada'', rq_remote_addr = None\<rparr>"

definition plain_input :: run_input where
  "plain_input = \<lparr>ri_thread_id = ''t'', ri_run_id = ''r'', ri_messages = [], ri_context = []\<rparr>"

definition less :: "string list \<Rightarrow> string set \<Rightarrow> string list" where
  "less names seen = filter (\<lambda>n. n \<notin> seen) names"

lemma excludes_less: "distinct names \<Longrightarrow> excludes (less names) (set names)"
  by (auto simp: excludes_def less_def)


definition hook_only :: "(unit, unit, unit, unit, unit) view_args" where
  "hook_only = \<lparr>va_tools = two_sources, va_model = py_none, va_instructions = None,
     va_model_for_request = Some (\<lambda>_. Object ()), va_instructions_for_request = None,
     va_provider = None, va_agent_factory = None, va_deps_factory = None, va_has_steps = False,
     va_audit_logger = None, va_toolsets = None, va_capabilities = None,
     va_config = (case configured [] of Inr c \<Rightarrow> c | Inl _ \<Rightarrow> undefined)\<rparr>"

definition total_substrate :: "(unit, unit, unit, unit) substrate" where
  "total_substrate = \<lparr>sb_bridge = (\<lambda>_ _. []), sb_specs = (\<lambda>_. []), sb_model = (\<lambda>_ _ _. Inr ()),
     sb_agent = (\<lambda>_. Inr ()), sb_conversions = plain_conversions, sb_text = (\<lambda>_. [])\<rparr>"

lemma default_model: "configured [] = Inr c \<Longrightarrow> ac_model c = py_none"
  by (auto simp: configured_def build_ag_ui_config_def pick_def no_overrides_def bind_result_Inr)

lemma model_hook_alone_cannot_run_witness:
  "require_a_model (sb_model total_substrate) hook_only = Inr ()
    \<and> \<not> (\<exists>parts. fst (assemble_run total_substrate hook_only plain_request plain_input None None) = Inr parts)"
proof -
  obtain c where "configured [] = Inr c" using defaults_build by blast
  then have "ac_model (va_config hook_only) = py_none" "va_model hook_only = py_none"
    by (simp_all add: hook_only_def default_model)
  with model_hook_alone_cannot_run [of hook_only "\<lambda>_. Object ()" total_substrate plain_request plain_input None]
  show ?thesis by (simp add: hook_only_def total_substrate_def)
qed

end
