(* ===== verification/Server.thy ===== *)
theory Server
  imports RunParts RunIndex Catalogs Throttle
begin

text \<open>
  \<open>agent/agui_server.py\<close>: the object a project mounts. Its constructor refuses what could only
  fail later, normalises the specs and builds the run endpoint; \<open>urls\<close> mounts a view per
  configured backend, all under one request policy. The substrate's \<open>kernel_spec\<close> is a
  parameter: \<open>None\<close> where it raises, else whether the spec declares permissions. Django's
  routing is modelled for the patterns used here: a literal, or a literal, one \<open><str:...>\<close>
  segment and a slash.
\<close>

section \<open>The specs\<close>

text \<open>
  What the sniffing of \<open>service_specs=\<close> can see of its argument: the specs of its toolset if it
  has \<open>get_toolset\<close>; its \<open>specs\<close> attribute if any, callable or not; what
  \<open>resolve_spec_mapping\<close> makes of it; and its own items as a mapping.
\<close>

record 'sp spec_object =
  so_get_toolset :: "(string \<times> 'sp) list option"
  so_specs :: "(bool \<times> (string \<times> 'sp) list) option"
  so_resolved :: "(string \<times> 'sp) list"
  so_items :: "(string \<times> 'sp) list"

datatype 'sp spec_capability = AsGiven "'sp spec_object" | FromToolset "'sp spec_object"

definition resolve_spec_source ::
    "'sp spec_object option \<Rightarrow>
     (string \<times> 'sp) list option \<times> 'sp spec_capability option \<times> 'sp spec_object option" where
  "resolve_spec_source arg =
     (case arg of
        None \<Rightarrow> (None, None, None)
      | Some ob \<Rightarrow>
          (case so_get_toolset ob of
             Some specs \<Rightarrow> (Some specs, Some (AsGiven ob), None)
           | None \<Rightarrow>
               (case so_specs ob of
                  Some (True, _) \<Rightarrow> (Some (so_resolved ob), None, Some ob)
                | None \<Rightarrow> (Some (so_items ob), None, None)
                | Some (False, specs) \<Rightarrow> (Some specs, Some (FromToolset ob), None))))"

datatype refusal =
    RemovedSettings "(string \<times> string) list"
  | DottedPaths "string list"
  | BadSettings string
  | NotASpec string
  | UnguardedSpecs "string list"
  | NameCollisions "(string \<times> source) list"
  | AsyncThrottle string
  | NoModel string

fun unguarded_specs :: "('sp \<Rightarrow> bool option) \<Rightarrow> (string \<times> 'sp) list \<Rightarrow> refusal + string list" where
  "unguarded_specs kernel_spec [] = Inr []"
| "unguarded_specs kernel_spec ((name, spec) # specs) =
     (case kernel_spec spec of
        None \<Rightarrow> Inl (NotASpec name)
      | Some guarded \<Rightarrow>
          bind_result (unguarded_specs kernel_spec specs) (\<lambda>names.
            Inr (if guarded then names else name # names)))"

definition reject_unguarded_specs :: "('sp \<Rightarrow> bool option) \<Rightarrow> (string \<times> 'sp) list \<Rightarrow> refusal + unit" where
  "reject_unguarded_specs kernel_spec specs =
     bind_result (unguarded_specs kernel_spec specs) (\<lambda>names.
       if names = [] then Inr () else Inl (UnguardedSpecs (sort names)))"

section \<open>The approval prompts\<close>

text \<open>A registry tool, as its name and the question of its \<open>confirm=\<close>.\<close>

type_synonym registry = "(string \<times> ustr option) list"

definition registry_prompts :: "registry \<Rightarrow> dict" where
  "registry_prompts registry =
     fmap_of_list (rev (List.map_filter (\<lambda>(name, confirm). map_option (\<lambda>q. (name, JStr q)) confirm) registry))"

definition with_registry_prompts ::
    "('m, 'i) ag_ui_config \<Rightarrow> registry \<Rightarrow> ('m, 'i) ag_ui_config" where
  "with_registry_prompts config registry =
     (if registry_prompts registry = fmempty then config
      else config\<lparr>ac_approval_prompts := fmadd (registry_prompts registry) (ac_approval_prompts config)\<rparr>)"

section \<open>Construction\<close>

text \<open>
  The arguments. \<open>sa_named\<close> lists the collaborators \<open>check_no_dotted_paths\<close> is handed, by
  argument name; \<open>sa_view\<close> holds those the run endpoint is built from, with the tools and the
  configuration filled in below.
\<close>

record ('m, 'i, 'p, 'a, 'o, 'sp) server_args =
  sa_settings :: "'m settings"
  sa_named :: "(string \<times> argument) list"
  sa_registry :: registry
  sa_config :: "('m, 'i) ag_ui_config option"
  sa_specs :: "'sp spec_object option"
  sa_mcp :: "string list option"
  sa_attachments :: bool
  sa_throttle_is_async :: "bool option"
  sa_view :: "('m, 'i, 'p, 'a, 'o) view_args"

definition refused :: "('e \<Rightarrow> refusal) \<Rightarrow> 'e + 'b \<Rightarrow> refusal + 'b" where
  "refused why r = (case r of Inl e \<Rightarrow> Inl (why e) | Inr b \<Rightarrow> Inr b)"

definition server_tools ::
    "('m, 'i, 'p, 'a, 'o, 'sp) server_args \<Rightarrow> tool_config" where
  "server_tools sa =
     (case resolve_spec_source (sa_specs sa) of
        (specs, capability, _) \<Rightarrow>
          \<lparr>tc_registry = map fst (sa_registry sa), tc_mcp = sa_mcp sa,
           tc_specs = map_option (map fst) specs, tc_capability = (capability \<noteq> None),
           tc_attachments = sa_attachments sa\<rparr>)"

definition check_specs ::
    "('sp \<Rightarrow> bool option) \<Rightarrow> ('m, 'i, 'p, 'a, 'o, 'sp) server_args \<Rightarrow> refusal + unit" where
  "check_specs kernel_spec sa =
     (case resolve_spec_source (sa_specs sa) of
        (specs, capability, _) \<Rightarrow>
          bind_result
            (if capability = None \<and> specs \<noteq> None \<and> specs \<noteq> Some []
             then reject_unguarded_specs kernel_spec (the specs) else Inr ()) (\<lambda>_.
          if capability \<noteq> None
          then refused NameCollisions
            (reject_spec_name_collisions (case specs of None \<Rightarrow> [] | Some sp \<Rightarrow> map fst sp)
               (map fst (sa_registry sa)) (sa_mcp sa))
          else Inr ()))"

definition new_server ::
    "conversions \<Rightarrow> ('m \<Rightarrow> ustr) \<Rightarrow> ('m, 'p) model_builder \<Rightarrow> ('sp \<Rightarrow> bool option) \<Rightarrow>
     ('m, 'i, 'p, 'a, 'o, 'sp) server_args \<Rightarrow> refusal + ('m, 'i, 'p, 'a, 'o) view_args" where
  "new_server cv obj_text build_model kernel_spec sa =
     bind_result (refused RemovedSettings (check_removed_settings (sa_settings sa))) (\<lambda>_.
     bind_result (refused DottedPaths (check_no_dotted_paths (sa_named sa))) (\<lambda>_.
     bind_result (refused BadSettings
       (case sa_config sa of
          Some c \<Rightarrow> Inr c
        | None \<Rightarrow> build_ag_ui_config cv obj_text (sa_settings sa) no_overrides)) (\<lambda>config.
     bind_result (check_specs kernel_spec sa) (\<lambda>_.
     bind_result (refused AsyncThrottle (reject_async_throttle (sa_throttle_is_async sa) ''run'')) (\<lambda>_.
       let va = (sa_view sa)\<lparr>va_tools := server_tools sa,
                  va_config := with_registry_prompts config (sa_registry sa)\<rparr>
       in bind_result (refused NoModel (require_a_model build_model va)) (\<lambda>_. Inr va))))))"

section \<open>The mount\<close>

text \<open>
  A configured endpoint at run time. \<open>None\<close> stands for a backend that is absent or null. Every
  view is built with the one policy \<open>st_deny\<close>.
\<close>

record ('h, 's, 't) site =
  st_deny :: "http_request \<Rightarrow> nat option"
  st_endpoint :: "('h, 's) endpoint"
  st_catalog :: "json list"
  st_steps :: "(('h, 's) step_ops \<times> (http_request \<Rightarrow> raised + 't run_record list)
      \<times> (http_request \<Rightarrow> string \<Rightarrow> raised + snapshot option)) option"
  st_skills :: "skill_registry option"
  st_threads :: "('s, 't) conversation_store option"
  st_activities :: "activity_source option"
  st_attachments :: "'s attachment_store option"
  st_transcribe :: "(upload \<Rightarrow> http_request \<Rightarrow> 's \<Rightarrow> (string + ustr) \<times> 's) option"
  st_transcribe_throttle :: "(http_request \<Rightarrow> 's \<Rightarrow> int option \<times> 's) option"
  st_run_limit :: int
  st_thread_limit :: int
  st_upload_limits :: upload_limits
  st_audio_limits :: upload_limits

datatype view = RunView | ToolsView | RunsView | SkillsView | ThreadsView | AttachmentsView | TranscribeView

record route =
  rt_prefix :: string
  rt_param :: bool
  rt_view :: view
  rt_name :: string

definition build_patterns :: "('h, 's, 't) site \<Rightarrow> route list" where
  "build_patterns st =
     [\<lparr>rt_prefix = [], rt_param = False, rt_view = RunView, rt_name = ''endpoint''\<rparr>,
      \<lparr>rt_prefix = ''tools/'', rt_param = False, rt_view = ToolsView, rt_name = ''tools''\<rparr>]
     @ (if st_steps st = None then [] else
         [\<lparr>rt_prefix = ''resume/'', rt_param = True, rt_view = RunView, rt_name = ''resume''\<rparr>,
          \<lparr>rt_prefix = ''fork/'', rt_param = True, rt_view = RunView, rt_name = ''fork''\<rparr>,
          \<lparr>rt_prefix = ''runs/'', rt_param = False, rt_view = RunsView, rt_name = ''runs''\<rparr>])
     @ (if st_skills st = None then [] else
         [\<lparr>rt_prefix = ''skills/'', rt_param = False, rt_view = SkillsView, rt_name = ''skills''\<rparr>])
     @ (if st_threads st = None then [] else
         [\<lparr>rt_prefix = ''threads/'', rt_param = False, rt_view = ThreadsView, rt_name = ''threads''\<rparr>,
          \<lparr>rt_prefix = ''threads/'', rt_param = True, rt_view = ThreadsView, rt_name = ''thread''\<rparr>])
     @ (if st_attachments st = None then [] else
         [\<lparr>rt_prefix = ''attachments/'', rt_param = False, rt_view = AttachmentsView, rt_name = ''attachments''\<rparr>,
          \<lparr>rt_prefix = ''attachments/'', rt_param = True, rt_view = AttachmentsView, rt_name = ''attachment''\<rparr>])
     @ (if st_transcribe st = None then [] else
         [\<lparr>rt_prefix = ''transcribe/'', rt_param = False, rt_view = TranscribeView, rt_name = ''transcribe''\<rparr>])"

text \<open>Django's match of one pattern, \<open>None\<close> for none, else the captured segment.\<close>

definition segment :: "string \<Rightarrow> bool" where
  "segment x \<longleftrightarrow> x \<noteq> [] \<and> CHR ''/'' \<notin> set x"

definition match_route :: "route \<Rightarrow> string \<Rightarrow> string option option" where
  "match_route r path =
     (if \<not> rt_param r then (if path = rt_prefix r then Some None else None)
      else let rest = drop (length (rt_prefix r)) path in
        if take (length (rt_prefix r)) path = rt_prefix r \<and> rest \<noteq> [] \<and> last rest = CHR ''/''
           \<and> segment (butlast rest)
        then Some (Some (butlast rest)) else None)"

fun resolve :: "route list \<Rightarrow> string \<Rightarrow> (view \<times> string option) option" where
  "resolve [] path = None"
| "resolve (r # rs) path =
     (case match_route r path of Some captured \<Rightarrow> Some (rt_view r, captured) | None \<Rightarrow> resolve rs path)"

datatype 'h served = RunStream "'h run_plan" | FileStream download | NoBody

definition serving :: "('b \<Rightarrow> 'h served) \<Rightarrow> (string + 'b response) \<times> 's \<Rightarrow> (string + 'h served response) \<times> 's" where
  "serving f r = map_prod (map_sum id (map_response f)) id r"

definition endpoint_of :: "('h, 's, 't) site \<Rightarrow> ('h, 's) endpoint" where
  "endpoint_of st = (st_endpoint st)\<lparr>ep_deny := st_deny st, ep_steps := map_option fst (st_steps st)\<rparr>"

text \<open>
  How values are rendered and parsed is the substrate's and Python's: \<open>isoformat\<close>, \<open>digit\<close>,
  \<open>parse\<close>, \<open>dump\<close>, \<open>loads\<close> and \<open>repr\<close>.
\<close>

record 't rendering =
  rd_isoformat :: "'t \<Rightarrow> ustr"
  rd_digit :: "nat \<Rightarrow> nat option"
  rd_parse :: "json \<Rightarrow> message list option"
  rd_dump :: "message list \<Rightarrow> json"
  rd_loads :: "ustr \<Rightarrow> json option"
  rd_repr :: "string option \<Rightarrow> ustr"

definition serve_view ::
    "'t rendering \<Rightarrow> ('h, 's, 't) site \<Rightarrow> view \<Rightarrow> string option \<Rightarrow> http_request \<Rightarrow> 's \<Rightarrow>
     (string + 'h served response) \<times> 's" where
  "serve_view rd st v captured rq s =
     (case v of
        RunView \<Rightarrow> serving RunStream (agui_view (endpoint_of st) captured rq s)
      | ToolsView \<Rightarrow> serving (\<lambda>_. NoBody) (tools_view (st_deny st) (st_catalog st) rq s)
      | RunsView \<Rightarrow>
          serving (\<lambda>_. NoBody) (runs_view (rd_isoformat rd) (st_deny st) (fst (snd (the (st_steps st))))
            (snd (snd (the (st_steps st)))) (st_run_limit st) rq s)
      | SkillsView \<Rightarrow> serving (\<lambda>_. NoBody) (skills_view (st_deny st) (the (st_skills st)) rq s)
      | ThreadsView \<Rightarrow>
          serving (\<lambda>_. NoBody) (threads_view (the (st_threads st)) (rd_isoformat rd) (rd_digit rd) (rd_parse rd)
            (rd_dump rd) (st_activities st) (rd_loads rd) (st_thread_limit st) (st_deny st) captured rq s)
      | AttachmentsView \<Rightarrow>
          serving FileStream (attachments_view (rd_repr rd) (the (st_attachments st)) (st_upload_limits st)
            (st_deny st) captured rq s)
      | TranscribeView \<Rightarrow>
          serving (\<lambda>_. NoBody) (transcribe_view (rd_repr rd) (st_transcribe st) (st_transcribe_throttle st)
            (st_audio_limits st) (st_deny st) rq s))"

text \<open>A request under the mount: \<open>None\<close> where no pattern matches, which Django answers with 404.\<close>

definition dispatch ::
    "'t rendering \<Rightarrow> ('h, 's, 't) site \<Rightarrow> string \<Rightarrow> http_request \<Rightarrow> 's \<Rightarrow>
     ((string + 'h served response) \<times> 's) option" where
  "dispatch rd st path rq s =
     map_option (\<lambda>(v, captured). serve_view rd st v captured rq s) (resolve (build_patterns st) path)"

text \<open>The methods of a view, on its collection and on one entry of it.\<close>

definition methods_of :: "view \<Rightarrow> string option \<Rightarrow> string list" where
  "methods_of v captured =
     (case v of
        RunView \<Rightarrow> [''POST'']
      | ToolsView \<Rightarrow> [''GET'']
      | RunsView \<Rightarrow> [''GET'']
      | SkillsView \<Rightarrow> [''GET'']
      | ThreadsView \<Rightarrow> (case captured of None \<Rightarrow> [''GET''] | Some _ \<Rightarrow> [''GET'', ''PATCH'', ''DELETE''])
      | AttachmentsView \<Rightarrow> (case captured of None \<Rightarrow> [''POST''] | Some _ \<Rightarrow> [''GET'', ''DELETE''])
      | TranscribeView \<Rightarrow> [''POST''])"

lemmas view_gates = run_gate.gate tools_gate.gate runs_gate.gate skills_gate.gate threads_gate.gate
  attachments_gate.gate transcribe_gate.gate

lemmas view_methods = run_gate.wrong_method tools_gate.wrong_method runs_gate.wrong_method
  skills_gate.wrong_method threads_gate.wrong_method attachments_gate.wrong_method
  transcribe_gate.wrong_method

lemmas site_defs = serve_view_def serving_def endpoint_of_def methods_of_def

interpretation site_gate: routed_view "st_deny st" "serve_view rd st v captured" "methods_of v captured"
  for rd st v captured
proof
  fix rq code s
  show "serve_view rd st v captured rq s = (Inr (AuthError code), s)" if "st_deny st rq = Some code"
    using that by (cases v) (simp_all add: site_defs view_gates)
  show "serve_view rd st v captured rq s = (Inr (NotAllowed (methods_of v captured)), s)"
    if "st_deny st rq = None" "rq_method rq \<notin> set (methods_of v captured)"
    using that by (cases v) (simp_all add: site_defs view_methods)
qed

section \<open>What the mount serves\<close>

text \<open>The route table as the documentation gives it.\<close>

definition mounted :: "('h, 's, 't) site \<Rightarrow> string \<Rightarrow> view \<Rightarrow> string option \<Rightarrow> bool" where
  "mounted st path v captured \<longleftrightarrow>
     (case v of
        RunView \<Rightarrow>
          (case captured of
             None \<Rightarrow> path = []
           | Some r \<Rightarrow> st_steps st \<noteq> None \<and> segment r
               \<and> (path = ''resume/'' @ r @ ''/'' \<or> path = ''fork/'' @ r @ ''/''))
      | ToolsView \<Rightarrow> captured = None \<and> path = ''tools/''
      | RunsView \<Rightarrow> captured = None \<and> st_steps st \<noteq> None \<and> path = ''runs/''
      | SkillsView \<Rightarrow> captured = None \<and> st_skills st \<noteq> None \<and> path = ''skills/''
      | ThreadsView \<Rightarrow> st_threads st \<noteq> None
          \<and> (case captured of None \<Rightarrow> path = ''threads/'' | Some i \<Rightarrow> segment i \<and> path = ''threads/'' @ i @ ''/'')
      | AttachmentsView \<Rightarrow> st_attachments st \<noteq> None
          \<and> (case captured of None \<Rightarrow> path = ''attachments/''
             | Some i \<Rightarrow> segment i \<and> path = ''attachments/'' @ i @ ''/'')
      | TranscribeView \<Rightarrow> captured = None \<and> st_transcribe st \<noteq> None \<and> path = ''transcribe/'')"

lemma match_literal: "\<not> rt_param r \<Longrightarrow> match_route r path = Some c \<longleftrightarrow> c = None \<and> path = rt_prefix r"
  by (auto simp: match_route_def)

lemma match_capture:
  assumes "rt_param r"
  shows "match_route r path = Some c \<longleftrightarrow> (\<exists>x. c = Some x \<and> segment x \<and> path = rt_prefix r @ x @ ''/'')"
proof
  define rest where "rest = drop (length (rt_prefix r)) path"
  assume "match_route r path = Some c"
  then have m: "take (length (rt_prefix r)) path = rt_prefix r" "rest \<noteq> []" "last rest = CHR ''/''"
      "segment (butlast rest)" "c = Some (butlast rest)"
    using assms by (simp_all add: match_route_def rest_def Let_def split: if_split_asm)
  have "path = rt_prefix r @ rest"
    using m(1) unfolding rest_def by (metis append_take_drop_id)
  moreover have "rest = butlast rest @ ''/''"
    using m(2,3) by (metis append_butlast_last_id)
  ultimately show "\<exists>x. c = Some x \<and> segment x \<and> path = rt_prefix r @ x @ ''/''"
    using m(4,5) by blast
next
  assume "\<exists>x. c = Some x \<and> segment x \<and> path = rt_prefix r @ x @ ''/''"
  then show "match_route r path = Some c"
    using assms by (auto simp: match_route_def Let_def butlast_append)
qed

text \<open>
  A pattern that matches is the only one: the literal before the first slash, and whether a
  segment follows, tell them apart.
\<close>

definition head_of :: "string \<Rightarrow> string" where
  "head_of path = takeWhile (\<lambda>c. c \<noteq> CHR ''/'') path"

definition well_formed :: "route \<Rightarrow> bool" where
  "well_formed r \<longleftrightarrow> (\<not> rt_param r \<and> rt_prefix r = [])
     \<or> (\<exists>h. CHR ''/'' \<notin> set h \<and> h \<noteq> [] \<and> rt_prefix r = h @ ''/'')"

lemma head_of_simps:
  "CHR ''/'' \<notin> set h \<Longrightarrow> head_of (h @ CHR ''/'' # rest) = h"
  by (simp add: head_of_def takeWhile_append)

lemma matched_route:
  assumes "well_formed r" and "match_route r path = Some c"
  shows "rt_prefix r = (if head_of path = [] then [] else head_of path @ ''/'')"
    and "rt_param r \<longleftrightarrow> path \<noteq> rt_prefix r"
proof -
  have "(rt_prefix r = (if head_of path = [] then [] else head_of path @ ''/''))
      \<and> (rt_param r \<longleftrightarrow> path \<noteq> rt_prefix r)"
  proof (cases "rt_param r")
    case True
    then obtain h where "CHR ''/'' \<notin> set h" "h \<noteq> []" "rt_prefix r = h @ ''/''"
      using assms(1) by (auto simp: well_formed_def)
    with True assms(2) show ?thesis by (auto simp: match_capture head_of_simps)
  next
    case False
    with assms show ?thesis
      by (auto simp: match_literal well_formed_def head_of_simps) (simp_all add: head_of_def)
  qed
  then show "rt_prefix r = (if head_of path = [] then [] else head_of path @ ''/'')"
    and "rt_param r \<longleftrightarrow> path \<noteq> rt_prefix r"
    by blast+
qed

lemma patterns_well_formed: "list_all well_formed (build_patterns st)"
proof -
  have "well_formed \<lparr>rt_prefix = [], rt_param = False, rt_view = v, rt_name = n\<rparr>" for v n
    by (simp add: well_formed_def)
  moreover have named: "well_formed \<lparr>rt_prefix = h @ ''/'', rt_param = b, rt_view = v, rt_name = n\<rparr>"
    if "CHR ''/'' \<notin> set h" "h \<noteq> []" for h b v n
    using that by (auto simp: well_formed_def)
  moreover note named [of "''tools''"] named [of "''resume''"] named [of "''fork''"] named [of "''runs''"]
    named [of "''skills''"] named [of "''threads''"] named [of "''attachments''"] named [of "''transcribe''"]
  ultimately show ?thesis
    by (simp add: build_patterns_def)
qed

lemma patterns_distinct: "distinct (map (\<lambda>r. (rt_prefix r, rt_param r)) (build_patterns st))"
  by (simp add: build_patterns_def)

lemma one_pattern_matches:
  assumes "r \<in> set (build_patterns st)" and "r' \<in> set (build_patterns st)"
    and "match_route r path = Some c" and "match_route r' path = Some c'"
  shows "r = r'"
proof -
  have "well_formed r" "well_formed r'"
    using patterns_well_formed [of st] assms(1,2) by (auto simp: list_all_iff)
  from matched_route [OF this(1) assms(3)] matched_route [OF this(2) assms(4)]
  have "(rt_prefix r, rt_param r) = (rt_prefix r', rt_param r')" by simp
  with patterns_distinct [of st] assms(1,2) show ?thesis
    by (auto simp: distinct_map inj_on_def)
qed

lemma resolve_iff:
  assumes "\<And>r r' c c'. r \<in> set rs \<Longrightarrow> r' \<in> set rs \<Longrightarrow> match_route r path = Some c \<Longrightarrow>
    match_route r' path = Some c' \<Longrightarrow> r = r'"
  shows "resolve rs path = Some (v, c) \<longleftrightarrow> (\<exists>r \<in> set rs. rt_view r = v \<and> match_route r path = Some c)"
  using assms
proof (induction rs)
  case (Cons r rs)
  show ?case
  proof (cases "match_route r path")
    case None
    with Cons show ?thesis by auto
  next
    case (Some d)
    with Cons.prems [of r] show ?thesis by fastforce
  qed
qed simp

lemma resolve_mounted: "resolve (build_patterns st) path = Some (v, c) \<longleftrightarrow> mounted st path v c"
proof -
  have "resolve (build_patterns st) path = Some (v, c)
      \<longleftrightarrow> (\<exists>r \<in> set (build_patterns st). rt_view r = v \<and> match_route r path = Some c)"
    by (intro resolve_iff) (rule one_pattern_matches)
  also have "\<dots> \<longleftrightarrow> mounted st path v c"
    by (cases v; cases c) (auto simp: build_patterns_def mounted_def match_literal match_capture)
  finally show ?thesis .
qed

lemma dispatch_admitted:
  assumes "st_deny st rq = None"
  shows "case resolve (build_patterns st) path of
      None \<Rightarrow> dispatch rd st path rq s = None
    | Some (w, c) \<Rightarrow>
        rq_method rq \<in> set (methods_of w c)
        \<or> dispatch rd st path rq s = Some (Inr (NotAllowed (methods_of w c)), s)"
proof (cases "resolve (build_patterns st) path")
  case None
  then show ?thesis by (simp add: dispatch_def)
next
  case (Some m)
  obtain w c where "m = (w, c)" by force
  then show ?thesis
    using Some site_gate.wrong_method [OF assms, where v = w and captured = c and rd = rd and s = s]
    by (auto simp: dispatch_def)
qed

text \<open>
  C34. The mount serves exactly the documented routes, each optional one only where its backend is
  configured, no two under one name; and one policy stands in front of all of them. A caller it
  refuses is answered with the same status on every mounted path, whatever the method and body,
  with no effect on any store, and a path that is not mounted is no route at all. A caller it
  admits reaches a view only by a method of that route: any other is answered with the list of
  them, with no effect either.
\<close>

theorem refused_callers_learn_only_the_mount:
  "(resolve (build_patterns st) path = Some (v, captured) \<longleftrightarrow> mounted st path v captured)
   \<and> distinct (map rt_name (build_patterns st))
   \<and> (case st_deny st rq of
        None \<Rightarrow>
          (case resolve (build_patterns st) path of
             None \<Rightarrow> dispatch rd st path rq s = None
           | Some (w, c) \<Rightarrow>
               rq_method rq \<in> set (methods_of w c)
               \<or> dispatch rd st path rq s = Some (Inr (NotAllowed (methods_of w c)), s))
      | Some code \<Rightarrow>
          dispatch rd st path rq s =
            (if \<exists>v captured. mounted st path v captured then Some (Inr (AuthError code), s) else None))"
proof -
  have "dispatch rd st path rq s =
      (if \<exists>v captured. mounted st path v captured then Some (Inr (AuthError code), s) else None)"
    if "st_deny st rq = Some code" for code
  proof (cases "resolve (build_patterns st) path")
    case None
    then have "\<not> (\<exists>v captured. mounted st path v captured)"
      by (simp flip: resolve_mounted)
    with None show ?thesis by (simp add: dispatch_def)
  next
    case (Some vc)
    then have "mounted st path (fst vc) (snd vc)"
      by (simp flip: resolve_mounted)
    with Some that show ?thesis
      by (auto simp: dispatch_def site_gate.gate split: prod.split)
  qed
  moreover have "distinct (map rt_name (build_patterns st))"
    by (simp add: build_patterns_def)
  ultimately show ?thesis
    by (cases "st_deny st rq") (simp_all only: resolve_mounted dispatch_admitted option.case simp_thms)
qed

section \<open>What a constructed server can rely on\<close>

definition given_specs :: "('m, 'i, 'p, 'a, 'o, 'sp) server_args \<Rightarrow> (string \<times> 'sp) list" where
  "given_specs sa = (case fst (resolve_spec_source (sa_specs sa)) of None \<Rightarrow> [] | Some specs \<Rightarrow> specs)"

definition prebuilt :: "('m, 'i, 'p, 'a, 'o, 'sp) server_args \<Rightarrow> bool" where
  "prebuilt sa \<longleftrightarrow> fst (snd (resolve_spec_source (sa_specs sa))) \<noteq> None"

text \<open>When a refusal is deserved.\<close>

definition deserved ::
    "conversions \<Rightarrow> ('m \<Rightarrow> ustr) \<Rightarrow> ('sp \<Rightarrow> bool option) \<Rightarrow> ('m, 'i, 'p, 'a, 'o, 'sp) server_args \<Rightarrow> refusal \<Rightarrow> bool" where
  "deserved cv obj_text kernel_spec sa why \<longleftrightarrow>
     (case why of
        RemovedSettings names \<Rightarrow>
          names \<noteq> [] \<and> fst ` set names = {k. k \<in> fst ` set (sa_settings sa) \<and> \<not> affects k}
      | DottedPaths names \<Rightarrow>
          names \<noteq> [] \<and> set names = {k. \<exists>a. (k, a) \<in> set (sa_named sa) \<and> names_a_path a}
      | BadSettings e \<Rightarrow>
          sa_config sa = None
          \<and> build_ag_ui_config cv obj_text (sa_settings sa) (no_overrides :: ('m, 'i) overrides) = Inl e
      | NotASpec name \<Rightarrow> \<not> prebuilt sa \<and> (\<exists>spec. (name, spec) \<in> set (given_specs sa) \<and> kernel_spec spec = None)
      | UnguardedSpecs names \<Rightarrow>
          \<not> prebuilt sa \<and> names \<noteq> []
          \<and> set names = {k. \<exists>spec. (k, spec) \<in> set (given_specs sa) \<and> kernel_spec spec = Some False}
      | NameCollisions clashes \<Rightarrow>
          prebuilt sa \<and> clashes \<noteq> []
          \<and> fst ` set clashes = fst ` set (given_specs sa) \<inter> claimed_names (server_tools sa)
      | AsyncThrottle _ \<Rightarrow> sa_throttle_is_async sa = Some True
      | NoModel _ \<Rightarrow>
          va_agent_factory (sa_view sa) = None \<and> va_model_for_request (sa_view sa) = None)"

lemma refused_iff:
  "refused why r = Inl e \<longleftrightarrow> (\<exists>f. r = Inl f \<and> e = why f)" "refused why r = Inr b \<longleftrightarrow> r = Inr b"
  by (auto simp: refused_def split: sum.splits)

lemma unguarded_specs_iff:
  "unguarded_specs kernel_spec specs = Inr names \<Longrightarrow>
     list_all (\<lambda>s. kernel_spec (snd s) \<noteq> None) specs
     \<and> set names = {k. \<exists>spec. (k, spec) \<in> set specs \<and> kernel_spec spec = Some False}"
  "unguarded_specs kernel_spec specs = Inl why \<Longrightarrow>
     \<exists>name spec. why = NotASpec name \<and> (name, spec) \<in> set specs \<and> kernel_spec spec = None"
  by (induction kernel_spec specs arbitrary: names rule: unguarded_specs.induct)
    (auto simp: bind_result_Inr bind_result_Inl split: option.splits if_splits)

lemma reject_unguarded_iff:
  "reject_unguarded_specs kernel_spec specs = Inr () \<Longrightarrow> list_all (\<lambda>s. kernel_spec (snd s) = Some True) specs"
  "reject_unguarded_specs kernel_spec specs = Inl why \<Longrightarrow>
     (\<exists>name spec. why = NotASpec name \<and> (name, spec) \<in> set specs \<and> kernel_spec spec = None)
     \<or> (\<exists>names. why = UnguardedSpecs names \<and> names \<noteq> []
          \<and> set names = {k. \<exists>spec. (k, spec) \<in> set specs \<and> kernel_spec spec = Some False})"
proof -
  assume "reject_unguarded_specs kernel_spec specs = Inr ()"
  then have "unguarded_specs kernel_spec specs = Inr []"
    by (auto simp: reject_unguarded_specs_def bind_result_Inr split: if_splits)
  from unguarded_specs_iff(1) [OF this] show "list_all (\<lambda>s. kernel_spec (snd s) = Some True) specs"
    by (fastforce simp: list_all_iff)
next
  assume r: "reject_unguarded_specs kernel_spec specs = Inl why"
  show "(\<exists>name spec. why = NotASpec name \<and> (name, spec) \<in> set specs \<and> kernel_spec spec = None)
     \<or> (\<exists>names. why = UnguardedSpecs names \<and> names \<noteq> []
          \<and> set names = {k. \<exists>spec. (k, spec) \<in> set specs \<and> kernel_spec spec = Some False})"
  proof (cases "unguarded_specs kernel_spec specs")
    case (Inl e)
    with r unguarded_specs_iff(2) [OF Inl] show ?thesis by (simp add: reject_unguarded_specs_def)
  next
    case (Inr names)
    with r have "why = UnguardedSpecs (sort names)" "sort names \<noteq> []"
      by (auto simp: reject_unguarded_specs_def split: if_splits)
    with unguarded_specs_iff(1) [OF Inr] show ?thesis by auto
  qed
qed

lemma server_tools_sel:
  "tc_registry (server_tools sa) = map fst (sa_registry sa)" "tc_mcp (server_tools sa) = sa_mcp sa"
  "tc_capability (server_tools sa) = prebuilt sa"
  "(case tc_specs (server_tools sa) of None \<Rightarrow> [] | Some names \<Rightarrow> names) = map fst (given_specs sa)"
  by (auto simp: server_tools_def prebuilt_def given_specs_def split: prod.splits option.splits)

lemma check_specs_cases:
  "check_specs kernel_spec sa =
     (if prebuilt sa
      then refused NameCollisions (reject_spec_name_collisions (map fst (given_specs sa))
             (map fst (sa_registry sa)) (sa_mcp sa))
      else reject_unguarded_specs kernel_spec (given_specs sa))"
  by (cases "resolve_spec_source (sa_specs sa)")
    (auto simp: check_specs_def prebuilt_def given_specs_def reject_unguarded_specs_def bind_result_Inr
      split: option.splits)

lemma specs_accepted:
  assumes "check_specs kernel_spec sa = Inr ()"
  shows "accepted (server_tools sa)"
    and "prebuilt sa \<or> list_all (\<lambda>s. kernel_spec (snd s) = Some True) (given_specs sa)"
  using assms reject_unguarded_iff(1)
  by (auto simp: check_specs_cases accepted_def server_tools_sel refused_iff split: if_splits)

lemma collisions_named:
  assumes "reject_spec_name_collisions specs registry mcp = Inl clashes"
  shows "clashes \<noteq> [] \<and> fst ` set clashes =
    set specs \<inter> (set registry \<union> (case mcp of None \<Rightarrow> {} | Some ns \<Rightarrow> set ns))"
  using assms
  by (auto simp: reject_spec_name_collisions_def Let_def claims_keys image_image split: if_splits)

lemma check_specs_deserved:
  "check_specs kernel_spec sa = Inl why \<Longrightarrow> deserved cv obj_text kernel_spec sa why"
  using reject_unguarded_iff(2) [of kernel_spec "given_specs sa" why] collisions_named
  by (auto simp: check_specs_cases refused_iff deserved_def claimed_names_def registry_names_def
      mcp_names_def server_tools_sel split: if_splits)

lemma settings_deserved:
  "check_removed_settings s = Inl names \<Longrightarrow>
     names \<noteq> [] \<and> fst ` set names = {k. k \<in> fst ` set s \<and> \<not> affects k}"
  by (auto simp: check_removed_settings_def affects_known Let_def image_image split: if_splits) force

lemma settings_read: "check_removed_settings s = Inr () \<Longrightarrow> fst ` set s \<subseteq> Collect affects"
  using nothing_rejected [of s]
  by (auto simp: check_removed_settings_def affects_known Let_def split: if_splits)

lemma paths_deserved:
  "check_no_dotted_paths named = Inl names \<Longrightarrow>
     names \<noteq> [] \<and> set names = {k. \<exists>a. (k, a) \<in> set named \<and> names_a_path a}"
  by (auto simp: check_no_dotted_paths_def Let_def image_iff split: if_splits)

lemma paths_absent: "check_no_dotted_paths named = Inr () \<Longrightarrow> list_all (\<lambda>c. \<not> names_a_path (snd c)) named"
  by (auto simp: check_no_dotted_paths_def Let_def list_all_iff filter_empty_conv split: if_splits)

lemma throttle_deserved:
  "reject_async_throttle throttle allows = Inl e \<longleftrightarrow> throttle = Some True \<and> reject_async_throttle (Some True) allows = Inl e"
  by (cases throttle) auto

lemma throttle_sync: "reject_async_throttle throttle allows = Inr () \<longleftrightarrow> throttle \<noteq> Some True"
  by (cases throttle) auto

lemma no_model_deserved:
  "require_a_model build_model va = Inl e \<Longrightarrow> va_agent_factory va = None \<and> va_model_for_request va = None"
  by (auto simp: require_a_model_def split: if_splits)


end
