(* ===== verification/Charts.thy ===== *)
theory Charts
  imports Wire
begin

text \<open>
  What a project pushes to the browser itself: charts (\<open>types/chart_spec.py\<close>,
  \<open>chart_limits.py\<close>, \<open>chart_activity.py\<close>, \<open>chart_points_delta.py\<close>), follow-up prompts
  (\<open>suggestions_activity.py\<close>) and invalidations (\<open>resource_invalidation.py\<close>,
  \<open>publish_invalidation.py\<close>). Generated ids (\<open>uuid4\<close>) and the clock are parameters.
\<close>

section \<open>Limits\<close>

definition MAX_MAGNITUDE :: int where
  "MAX_MAGNITUDE = 10 ^ 15"

definition MAX_POINTS :: nat where
  "MAX_POINTS = 20000"

definition MAX_LABELS :: nat where
  "MAX_LABELS = 2000"

text \<open>
  A value given as a point or as a text. Python's floats are rationals here, with the infinities
  and NaN as \<open>NonFinite\<close>; \<open>NotNumber\<close> is any value of another type, \<open>Decimal\<close> included.
\<close>

datatype point = IntPoint int | FloatPoint rat | NonFinite | BoolPoint bool | NotNumber

datatype text_arg = Text ustr | NotText

text \<open>
  The refusals, each with what it names. \<open>OverflowError\<close> is not one of them: \<open>math.isfinite\<close>
  raises it on an integer too large for a float, that is from \<open>2 ^ 1024 - 2 ^ 970\<close> on, where
  rounding leaves the largest float.
\<close>

datatype chart_error =
    NoLabels | NoSeries | TitleNotText | LabelNotText | TooManyLabels nat | TooManyPoints nat
  | SeriesLabelNotText | WrongLength text_arg nat nat
  | PointNotNumber | PointNotFinite | PointTooLarge | OverflowError
  | NegativeSeries int | NoPoints | NoSuchSeries int nat | WrongDeltaLength nat nat

definition float_overflow :: int where
  "float_overflow = 2 ^ 1024 - 2 ^ 970"

definition validate_point :: "point \<Rightarrow> chart_error + unit" where
  "validate_point p =
     (case p of
        BoolPoint _ \<Rightarrow> Inl PointNotNumber
      | NotNumber \<Rightarrow> Inl PointNotNumber
      | NonFinite \<Rightarrow> Inl PointNotFinite
      | IntPoint i \<Rightarrow>
          if \<bar>i\<bar> \<ge> float_overflow then Inl OverflowError
          else if \<bar>i\<bar> > MAX_MAGNITUDE then Inl PointTooLarge else Inr ()
      | FloatPoint r \<Rightarrow> if \<bar>r\<bar> > of_int MAX_MAGNITUDE then Inl PointTooLarge else Inr ())"

fun check_all :: "('a \<Rightarrow> chart_error + unit) \<Rightarrow> 'a list \<Rightarrow> chart_error + unit" where
  "check_all f [] = Inr ()"
| "check_all f (x # xs) = bind_result (f x) (\<lambda>_. check_all f xs)"

section \<open>The spec\<close>

record chart_series =
  ch_label :: text_arg
  ch_points :: "point list"

record chart_spec =
  sp_labels :: "text_arg list"
  sp_series :: "chart_series list"
  sp_kind :: ustr
  sp_title :: "text_arg option"
  sp_metadata :: dict

definition validate_series :: "nat \<Rightarrow> chart_series \<Rightarrow> chart_error + unit" where
  "validate_series n_labels entry =
     (if ch_label entry = NotText then Inl SeriesLabelNotText
      else if length (ch_points entry) \<noteq> n_labels
      then Inl (WrongLength (ch_label entry) (length (ch_points entry)) n_labels)
      else check_all validate_point (ch_points entry))"

definition validate :: "chart_spec \<Rightarrow> chart_error + unit" where
  "validate spec =
     (if sp_labels spec = [] then Inl NoLabels
      else if sp_series spec = [] then Inl NoSeries
      else if sp_title spec = Some NotText then Inl TitleNotText
      else if NotText \<in> set (sp_labels spec) then Inl LabelNotText
      else if length (sp_labels spec) > MAX_LABELS then Inl (TooManyLabels (length (sp_labels spec)))
      else if length (sp_labels spec) * length (sp_series spec) > MAX_POINTS
      then Inl (TooManyPoints (length (sp_labels spec) * length (sp_series spec)))
      else check_all (validate_series (length (sp_labels spec))) (sp_series spec))"

text \<open>The constructor: the fields are copied and checked once.\<close>

definition new_chart_spec ::
    "text_arg list \<Rightarrow> chart_series list \<Rightarrow> ustr \<Rightarrow> text_arg option \<Rightarrow> dict \<Rightarrow> chart_error + chart_spec" where
  "new_chart_spec labels series kind title metadata =
     (let spec = \<lparr>sp_labels = labels, sp_series = series, sp_kind = kind, sp_title = title,
                   sp_metadata = metadata\<rparr>
      in bind_result (validate spec) (\<lambda>_. Inr spec))"

fun text_json :: "text_arg \<Rightarrow> json" where
  "text_json (Text t) = JStr t"
| "text_json NotText = JNull"

fun point_json :: "point \<Rightarrow> json" where
  "point_json (IntPoint i) = JInt i"
| "point_json (FloatPoint r) = JFloat r"
| "point_json (BoolPoint b) = JBool b"
| "point_json NonFinite = JNull"
| "point_json NotNumber = JNull"

definition series_json :: "chart_series \<Rightarrow> json" where
  "series_json s =
     JObj (fmap_of_list [(''label'', text_json (ch_label s)), (''points'', JList (map point_json (ch_points s)))])"

definition as_content :: "chart_spec \<Rightarrow> dict" where
  "as_content spec =
     (let content = fmupd ''series'' (JList (map series_json (sp_series spec)))
            (fmupd ''labels'' (JList (map text_json (sp_labels spec)))
              (fmupd ''kind'' (JStr (sp_kind spec)) (fmdrop ''title'' (sp_metadata spec))))
      in case sp_title spec of None \<Rightarrow> content | Some t \<Rightarrow> fmupd ''title'' (text_json t) content)"

section \<open>The events\<close>

definition CHART_ACTIVITY_TYPE :: string where
  "CHART_ACTIVITY_TYPE = ''chart''"

definition chart_activity :: "string \<Rightarrow> chart_spec \<Rightarrow> string option \<Rightarrow> event" where
  "chart_activity uuid spec chart_id =
     ActivitySnapshot (case chart_id of Some i \<Rightarrow> i | None \<Rightarrow> ''chart-'' @ uuid)
       CHART_ACTIVITY_TYPE (as_content spec) (Some True)"

definition points_path :: "int \<Rightarrow> ustr" where
  "points_path series = ustr ''/series/'' @ decimal series @ ustr ''/points''"

definition chart_points_delta ::
    "string \<Rightarrow> int \<Rightarrow> point list \<Rightarrow> chart_spec option \<Rightarrow> chart_error + event" where
  "chart_points_delta chart_id series points spec =
     (if series < 0 then Inl (NegativeSeries series)
      else if points = [] then Inl NoPoints
      else bind_result (check_all validate_point points) (\<lambda>_.
           bind_result
             (case spec of
                None \<Rightarrow> Inr ()
              | Some sp \<Rightarrow>
                  if series \<ge> int (length (sp_series sp)) then Inl (NoSuchSeries series (length (sp_series sp)))
                  else if length points \<noteq> length (sp_labels sp)
                  then Inl (WrongDeltaLength (length points) (length (sp_labels sp)))
                  else Inr ()) (\<lambda>_.
           Inr (ActivityDelta chart_id CHART_ACTIVITY_TYPE
             [\<lparr>po_op = ''replace'', po_path = points_path series, po_value = JList (map point_json points)\<rparr>]))))"

definition SUGGESTIONS_ACTIVITY_TYPE :: string where
  "SUGGESTIONS_ACTIVITY_TYPE = ''suggestions''"

definition MAX_SUGGESTIONS :: nat where
  "MAX_SUGGESTIONS = 4"

definition MAX_SUGGESTION_CHARS :: nat where
  "MAX_SUGGESTION_CHARS = 120"

datatype suggestion_error = NoPrompts | TooManyPrompts nat | BlankPrompt | LongPrompt nat

fun check_prompts :: "ustr list \<Rightarrow> suggestion_error + unit" where
  "check_prompts [] = Inr ()"
| "check_prompts (p # ps) =
     (if strip p = [] then Inl BlankPrompt
      else if length p > MAX_SUGGESTION_CHARS then Inl (LongPrompt (length p))
      else check_prompts ps)"

definition suggestions_activity ::
    "string \<Rightarrow> ustr list \<Rightarrow> string option \<Rightarrow> suggestion_error + event" where
  "suggestions_activity uuid prompts suggestions_id =
     (if prompts = [] then Inl NoPrompts
      else if length prompts > MAX_SUGGESTIONS then Inl (TooManyPrompts (length prompts))
      else bind_result (check_prompts prompts) (\<lambda>_.
        Inr (ActivitySnapshot
          (case suggestions_id of Some i \<Rightarrow> i | None \<Rightarrow> ''suggestions-'' @ uuid)
          SUGGESTIONS_ACTIVITY_TYPE
          (fmap_of_list [(''prompts'', JList (map (\<lambda>p. JStr (strip p)) prompts))]) (Some True))))"

definition INVALIDATE_EVENT_NAME :: string where
  "INVALIDATE_EVENT_NAME = ''ag_ui.invalidate''"

definition resource_invalidation :: "ustr list \<Rightarrow> ustr option \<Rightarrow> event" where
  "resource_invalidation resource_keys reason =
     CustomEvent INVALIDATE_EVENT_NAME
       (fmap_of_list [(''keys'', JList (map JStr resource_keys)),
         (''reason'', case reason of None \<Rightarrow> JNull | Some r \<Rightarrow> JStr r)])"

text \<open>The sink is the run's list of queued events, \<open>None\<close> outside a run.\<close>

definition publish_invalidation ::
    "ustr list \<Rightarrow> ustr option \<Rightarrow> event list option \<Rightarrow> bool \<times> event list option" where
  "publish_invalidation resource_keys reason sink =
     (case sink of
        None \<Rightarrow> (False, None)
      | Some events \<Rightarrow> (True, Some (events @ [resource_invalidation resource_keys reason])))"

section \<open>A constructed chart is drawn\<close>

text \<open>What the client accepts, read off the content it receives.\<close>

fun drawn_point :: "json \<Rightarrow> bool" where
  "drawn_point (JInt i) = (\<bar>i\<bar> \<le> MAX_MAGNITUDE)"
| "drawn_point (JFloat r) = (\<bar>r\<bar> \<le> of_int MAX_MAGNITUDE)"
| "drawn_point _ = False"

fun is_text :: "json \<Rightarrow> bool" where
  "is_text (JStr _) = True"
| "is_text _ = False"

fun drawn_series :: "nat \<Rightarrow> json \<Rightarrow> bool" where
  "drawn_series n (JObj d) =
     (case (fmlookup d ''label'', fmlookup d ''points'') of
        (Some l, Some (JList ps)) \<Rightarrow> is_text l \<and> length ps = n \<and> list_all drawn_point ps
      | _ \<Rightarrow> False)"
| "drawn_series n _ = False"

definition drawable :: "dict \<Rightarrow> bool" where
  "drawable content =
     (case (fmlookup content ''labels'', fmlookup content ''series'') of
        (Some (JList ls), Some (JList ss)) \<Rightarrow>
          ls \<noteq> [] \<and> ss \<noteq> [] \<and> list_all is_text ls \<and> length ls \<le> MAX_LABELS
          \<and> length ls * length ss \<le> MAX_POINTS \<and> list_all (drawn_series (length ls)) ss
      | _ \<Rightarrow> False)"

lemma check_all_iff: "check_all f xs = Inr () \<longleftrightarrow> list_all (\<lambda>x. f x = Inr ()) xs"
  by (induction xs) (simp_all add: bind_result_Inr)

lemma magnitude_is_finite: "\<bar>i\<bar> \<le> MAX_MAGNITUDE \<Longrightarrow> \<bar>i\<bar> < float_overflow"
  by (simp add: MAX_MAGNITUDE_def float_overflow_def)

lemma validate_point_iff: "validate_point p = Inr () \<longleftrightarrow> drawn_point (point_json p)"
  using magnitude_is_finite by (cases p) (auto simp: validate_point_def not_le not_less)

lemma is_text_iff: "is_text (text_json t) \<longleftrightarrow> t \<noteq> NotText"
  by (cases t) simp_all

lemma validate_series_iff: "validate_series n s = Inr () \<longleftrightarrow> drawn_series n (series_json s)"
  by (auto simp: validate_series_def series_json_def check_all_iff validate_point_iff is_text_iff
      list_all_iff)

lemma as_content_lookup:
  "fmlookup (as_content spec) ''labels'' = Some (JList (map text_json (sp_labels spec)))"
  "fmlookup (as_content spec) ''series'' = Some (JList (map series_json (sp_series spec)))"
  "fmlookup (as_content spec) ''kind'' = Some (JStr (sp_kind spec))"
  "fmlookup (as_content spec) ''title'' = map_option text_json (sp_title spec)"
  "k \<notin> {''labels'', ''series'', ''kind'', ''title''} \<Longrightarrow>
     fmlookup (as_content spec) k = fmlookup (sp_metadata spec) k"
  by (auto simp: as_content_def Let_def split: option.split)

lemma texts_iff: "list_all (\<lambda>t. is_text (text_json t)) ls \<longleftrightarrow> NotText \<notin> set ls"
  by (induction ls) (auto simp: is_text_iff)

lemma validate_iff: "validate spec = Inr () \<longleftrightarrow> sp_title spec \<noteq> Some NotText \<and> drawable (as_content spec)"
  by (auto simp: validate_def drawable_def as_content_lookup texts_iff check_all_iff validate_series_iff
      list.pred_map comp_def not_less)


section \<open>A checked delta moves the chart\<close>

text \<open>
  The client's side of a patch, after RFC 6902: a pointer is split at its slashes, an object is
  entered by key and a list by index.
\<close>

fun split_at :: "nat \<Rightarrow> ustr \<Rightarrow> ustr list" where
  "split_at c [] = [[]]"
| "split_at c (x # xs) =
     (if x = c then [] # split_at c xs
      else case split_at c xs of [] \<Rightarrow> [[x]] | w # ws \<Rightarrow> (x # w) # ws)"

fun replace_at :: "ustr list \<Rightarrow> json \<Rightarrow> json \<Rightarrow> json option" where
  "replace_at [] v old = Some v"
| "replace_at (t # ts) v (JObj d) =
     (case fmlookup d (map char_of t) of
        None \<Rightarrow> None
      | Some inner \<Rightarrow> map_option (\<lambda>new. JObj (fmupd (map char_of t) new d)) (replace_at ts v inner))"
| "replace_at (t # ts) v (JList xs) =
     (if list_all (\<lambda>c. 48 \<le> c \<and> c \<le> 57) t \<and> t \<noteq> [] \<and> undigits t < length xs
      then map_option (\<lambda>new. JList (xs[undigits t := new])) (replace_at ts v (xs ! undigits t))
      else None)"
| "replace_at (t # ts) v _ = None"

definition apply_patch :: "patch_op \<Rightarrow> json \<Rightarrow> json option" where
  "apply_patch p content =
     (if po_op p = ''replace'' then replace_at (split_at 47 (drop 1 (po_path p))) (po_value p) content
      else None)"

lemma split_at_word: "c \<notin> set w \<Longrightarrow> split_at c (w @ c # rest) = w # split_at c rest"
  by (induction w) auto

lemma split_at_last: "c \<notin> set w \<Longrightarrow> split_at c w = [w]"
  by (induction w) auto

lemma ustr_chars [simp]: "map char_of (ustr s) = s"
  by (simp add: ustr_def comp_def)

lemma digits_nonempty [simp]: "digits n \<noteq> []"
  by (subst digits.simps) simp

lemma points_path_tokens:
  "0 \<le> series \<Longrightarrow> split_at 47 (drop 1 (points_path series)) = [ustr ''series'', digits (nat series), ustr ''points'']"
proof -
  assume "0 \<le> series"
  then have "drop 1 (points_path series) = ustr ''series'' @ 47 # digits (nat series) @ 47 # ustr ''points''"
    by (simp add: points_path_def decimal_def ustr_def)
  moreover have "47 \<notin> set (digits (nat series))" using digits_range by fastforce
  ultimately show ?thesis
    by (simp add: split_at_word split_at_last ustr_def)
qed

definition moved :: "chart_spec \<Rightarrow> nat \<Rightarrow> point list \<Rightarrow> chart_spec" where
  "moved spec i points =
     spec\<lparr>sp_series := (sp_series spec)[i := (sp_series spec ! i)\<lparr>ch_points := points\<rparr>]\<rparr>"

lemma series_json_points:
  "fmupd ''points'' (JList (map point_json points)) (fmupd ''label'' l (fmupd ''points'' old fmempty))
    = fmupd ''label'' l (fmupd ''points'' (JList (map point_json points)) fmempty)"
  by (rule fmap_ext) auto

lemma content_moved:
  "fmupd ''series'' (JList ((map series_json (sp_series spec))[i := series_json
      ((sp_series spec ! i)\<lparr>ch_points := points\<rparr>)])) (as_content spec) = as_content (moved spec i points)"
proof (rule fmap_ext)
  fix k
  show "fmlookup (fmupd ''series'' (JList ((map series_json (sp_series spec))[i := series_json
      ((sp_series spec ! i)\<lparr>ch_points := points\<rparr>)])) (as_content spec)) k
    = fmlookup (as_content (moved spec i points)) k"
    by (cases "k \<in> {''labels'', ''series'', ''kind'', ''title''}")
      (auto simp: as_content_lookup moved_def map_update)
qed

lemma patch_moves:
  assumes "0 \<le> series" and "nat series < length (sp_series spec)"
  shows "replace_at [ustr ''series'', digits (nat series), ustr ''points''] (JList (map point_json points))
      (JObj (as_content spec)) = Some (JObj (as_content (moved spec (nat series) points)))"
proof -
  let ?s = "sp_series spec ! nat series"
  have "list_all (\<lambda>c. 48 \<le> c \<and> c \<le> 57) (digits (nat series))"
    using digits_range by (auto simp: list_all_iff)
  moreover have "replace_at [ustr ''points''] (JList (map point_json points)) (series_json ?s)
      = Some (series_json (?s\<lparr>ch_points := points\<rparr>))"
    by (simp add: series_json_def series_json_points)
  ultimately show ?thesis
    using assms by (simp add: as_content_lookup content_moved)
qed

lemma moved_valid:
  assumes "validate spec = Inr ()" and "i < length (sp_series spec)"
    and "check_all validate_point points = Inr ()" and "length points = length (sp_labels spec)"
  shows "validate (moved spec i points) = Inr ()"
proof -
  let ?s = "(sp_series spec ! i)\<lparr>ch_points := points\<rparr>"
  have "validate_series (length (sp_labels spec)) (sp_series spec ! i) = Inr ()"
    using assms(1,2) by (auto simp: validate_def check_all_iff list_all_length split: if_splits)
  then have "validate_series (length (sp_labels spec)) ?s = Inr ()"
    using assms(3,4) by (auto simp: validate_series_def split: if_splits)
  then show ?thesis
    using assms(1,2)
    by (auto simp: validate_def moved_def check_all_iff list_all_length nth_list_update split: if_splits)
qed

text \<open>
  C38. A delta checked against the spec on screen does what a new snapshot would: the patch finds
  its series in the content the client holds, and what it leaves there is the content of the same
  chart with that series moved, which the client still draws.
\<close>

theorem checked_delta_moves_the_chart:
  assumes "new_chart_spec labels ss kind title metadata = Inr spec"
    and "chart_points_delta chart_id series points (Some spec) = Inr e"
  shows "\<exists>p. e = ActivityDelta chart_id CHART_ACTIVITY_TYPE [p]
    \<and> apply_patch p (JObj (as_content spec)) = Some (JObj (as_content (moved spec (nat series) points)))
    \<and> drawable (as_content (moved spec (nat series) points))"
proof -
  have v: "validate spec = Inr ()"
    using assms(1) by (auto simp: new_chart_spec_def Let_def bind_result_Inr)
  have e: "0 \<le> series" "nat series < length (sp_series spec)" "check_all validate_point points = Inr ()"
      "length points = length (sp_labels spec)"
      "e = ActivityDelta chart_id CHART_ACTIVITY_TYPE
        [\<lparr>po_op = ''replace'', po_path = points_path series, po_value = JList (map point_json points)\<rparr>]"
    using assms(2) by (auto simp: chart_points_delta_def bind_result_Inr split: if_splits)
  show ?thesis
    using moved_valid [OF v e(2,3,4)] patch_moves [OF e(1,2), of points]
    unfolding e(5) apply_patch_def points_path_tokens [OF e(1), symmetric] validate_iff by simp
qed

definition two_bars :: chart_spec where
  "two_bars = \<lparr>sp_labels = [Text (ustr ''may''), Text (ustr ''june'')],
     sp_series = [\<lparr>ch_label = Text (ustr ''orders''), ch_points = [IntPoint 3, FloatPoint (1 / 2)]\<rparr>],
     sp_kind = ustr ''bar'', sp_title = None, sp_metadata = fmempty\<rparr>"

lemma checked_delta_moves_the_chart_witness:
  "\<exists>p. chart_points_delta ''c'' 0 [IntPoint 4, IntPoint 5] (Some two_bars)
        = Inr (ActivityDelta ''c'' CHART_ACTIVITY_TYPE [p])
    \<and> drawable (as_content (moved two_bars 0 [IntPoint 4, IntPoint 5]))"
proof -
  have spec: "new_chart_spec (sp_labels two_bars) (sp_series two_bars) (sp_kind two_bars) None fmempty = Inr two_bars"
    by (simp add: two_bars_def new_chart_spec_def validate_def validate_series_def validate_point_def
        MAX_LABELS_def MAX_POINTS_def MAX_MAGNITUDE_def float_overflow_def)
  obtain e where e: "chart_points_delta ''c'' 0 [IntPoint 4, IntPoint 5] (Some two_bars) = Inr e"
    by (simp add: two_bars_def chart_points_delta_def validate_point_def MAX_MAGNITUDE_def float_overflow_def)
  from checked_delta_moves_the_chart [OF spec e] e show ?thesis by auto
qed

end
