(* ===== verification/Transcription.thy ===== *)
theory Transcription
  imports Uploads
begin

text \<open>
  The transcription backends behind \<open>transcribe/\<close>: the one over an OpenAI-compatible API
  (\<open>contrib/transcription/openai_transcription_backend.py\<close>), with the client it builds on first
  use and keeps, and the null one (\<open>persistence/null_transcription_backend.py\<close>). The SDK is a
  parameter: \<open>None\<close> where it is not installed, else its client's constructor; \<open>create\<close> is the
  call of its transcription endpoint.
\<close>

section \<open>The backends\<close>

record openai_settings =
  oa_model :: string
  oa_base_url :: "string option"
  oa_api_key :: "string option"
  oa_timeout :: "rat option"

definition openai_defaults :: openai_settings where
  "openai_defaults = \<lparr>oa_model = ''whisper-1'', oa_base_url = None, oa_api_key = None, oa_timeout = Some 60\<rparr>"

record transcription_call =
  tr_model :: string
  tr_filename :: string
  tr_data :: "nat list"
  tr_content_type :: string

definition clip_call :: "openai_settings \<Rightarrow> upload \<Rightarrow> transcription_call" where
  "clip_call st audio =
     \<lparr>tr_model = oa_model st,
      tr_filename = (if up_name audio = [] then ''audio'' else up_name audio),
      tr_data = up_bytes audio,
      tr_content_type =
        (case up_content_type audio of
           None \<Rightarrow> ''application/octet-stream''
         | Some t \<Rightarrow> if t = [] then ''application/octet-stream'' else t)\<rparr>"

type_synonym 'c client_class = "string option \<Rightarrow> string option \<Rightarrow> rat option \<Rightarrow> string + 'c"

text \<open>\<open>transcribe\<close>. The first part of the state is the instance's \<open>_client\<close>.\<close>

definition openai_transcribe ::
    "'c client_class option \<Rightarrow> ('c \<Rightarrow> transcription_call \<Rightarrow> 's \<Rightarrow> (string + ustr) \<times> 's) \<Rightarrow>
     openai_settings \<Rightarrow> upload \<Rightarrow> http_request \<Rightarrow> 'c option \<times> 's \<Rightarrow> (string + ustr) \<times> 'c option \<times> 's" where
  "openai_transcribe sdk create st audio rq cs =
     (case (sdk, cs) of
        (None, _) \<Rightarrow> (Inl ''ImportError'', cs)
      | (Some async_openai, client, s) \<Rightarrow>
          (case (case client of
                   None \<Rightarrow> async_openai (oa_api_key st) (oa_base_url st) (oa_timeout st)
                 | Some c \<Rightarrow> Inr c) of
             Inl e \<Rightarrow> (Inl e, client, s)
           | Inr c \<Rightarrow> (case create c (clip_call st audio) s of (result, s') \<Rightarrow> (result, Some c, s'))))"

definition null_transcribe :: "upload \<Rightarrow> http_request \<Rightarrow> 's \<Rightarrow> (string + ustr) \<times> 's" where
  "null_transcribe audio rq s = (Inl ''NotImplementedError'', s)"

section \<open>Which clips reach a backend\<close>

definition accepted_clip :: "upload_limits \<Rightarrow> (http_request \<Rightarrow> nat option) \<Rightarrow> http_request \<Rightarrow> upload option" where
  "accepted_clip limits deny rq =
     (if deny rq = None \<and> rq_method rq = ''POST'' then acceptable ''audio'' limits rq else None)"

lemma transcribe_view_accepts:
  assumes "0 \<le> max_upload_bytes limits"
  shows "snd (transcribe_view repr_of (Some transcribe) None limits deny rq s) =
    (case accepted_clip limits deny rq of None \<Rightarrow> s | Some audio \<Rightarrow> snd (transcribe audio rq s))"
  using exceeded_iff [OF assms, of "rq_chunks rq"]
  by (auto simp: transcribe_view_def throttled_def accepted_clip_def acceptable_def single_file_def
      validate_type_def Let_def split: option.splits list.splits prod.splits sum.splits)

text \<open>A server's clips one after the other, each request on what the ones before left.\<close>

definition serve_clips ::
    "(string option \<Rightarrow> ustr) \<Rightarrow> (upload \<Rightarrow> http_request \<Rightarrow> 's \<Rightarrow> (string + ustr) \<times> 's) \<Rightarrow> upload_limits \<Rightarrow>
     (http_request \<Rightarrow> nat option) \<Rightarrow> http_request list \<Rightarrow> 's \<Rightarrow> 's" where
  "serve_clips repr_of transcribe limits deny rqs s =
     fold (\<lambda>rq s. snd (transcribe_view repr_of (Some transcribe) None limits deny rq s)) rqs s"

text \<open>
  Whatever is posted to the endpoint, the API is called once per acceptable clip - from a
  caller who is let in, alone under its field, of an allowed type and within the cap - in the
  order posted, with the clip's own bytes and a name and type that are never empty, and all of
  it on one client, built from the configured key, host and timeout when the first such clip
  arrives and not before; a failed call costs the next clip nothing.
\<close>

theorem one_client_serves_every_clip:
  assumes "0 \<le> max_upload_bytes limits"
    and "async_openai (oa_api_key st) (oa_base_url st) (oa_timeout st) = Inr c"
    and "\<And>call log. snd (create c call log) = log @ [(c, call)]"
  shows "serve_clips repr_of (openai_transcribe (Some async_openai) create st) limits deny rqs (None, []) =
    (let clips = List.map_filter (accepted_clip limits deny) rqs
     in (if clips = [] then None else Some c, map (\<lambda>audio. (c, clip_call st audio)) clips))
    \<and> tr_filename (clip_call st audio) \<noteq> [] \<and> tr_content_type (clip_call st audio) \<noteq> []"
proof
  let ?run = "openai_transcribe (Some async_openai) create st"
  have one: "snd (?run audio rq (client, log)) = (Some c, log @ [(c, clip_call st audio)])"
    if "client = None \<or> client = Some c" for audio rq client log
    using that assms(2) assms(3) [of "clip_call st audio" log]
    by (auto simp: openai_transcribe_def split: prod.split)
  have "serve_clips repr_of ?run limits deny rqs (client, log) =
      (if List.map_filter (accepted_clip limits deny) rqs = [] then client else Some c,
       log @ map (\<lambda>audio. (c, clip_call st audio)) (List.map_filter (accepted_clip limits deny) rqs))"
    if "client = None \<or> client = Some c" for client log
    using that
  proof (induction rqs arbitrary: client log)
    case (Cons rq rqs)
    have "serve_clips repr_of ?run limits deny (rq # rqs) (client, log) =
        serve_clips repr_of ?run limits deny rqs
          (case accepted_clip limits deny rq of None \<Rightarrow> (client, log)
           | Some audio \<Rightarrow> (Some c, log @ [(c, clip_call st audio)]))"
      using one [OF Cons.prems]
      by (simp add: serve_clips_def transcribe_view_accepts [OF assms(1)] split: option.split)
    with Cons show ?case by (cases "accepted_clip limits deny rq") (simp_all add: map_filter_simps)
  qed (simp add: serve_clips_def map_filter_simps)
  then show "serve_clips repr_of ?run limits deny rqs (None, []) =
    (let clips = List.map_filter (accepted_clip limits deny) rqs
     in (if clips = [] then None else Some c, map (\<lambda>audio. (c, clip_call st audio)) clips))"
    by (simp add: Let_def)
  show "tr_filename (clip_call st audio) \<noteq> [] \<and> tr_content_type (clip_call st audio) \<noteq> []"
    by (simp add: clip_call_def split: option.split)
qed

text \<open>Two clips, the second without a name, and a request that is not a clip between them.\<close>

definition recorded_clip :: "string \<Rightarrow> http_request" where
  "recorded_clip name =
     \<lparr>rq_method = ''POST'', rq_body = [], rq_query = Map.empty, rq_chunks = [[1, 2]],
      rq_files = [(''audio'', \<lparr>up_name = name, up_content_type = None, up_bytes = [1, 2]\<rparr>)],
      rq_user = None, rq_remote_addr = None\<rparr>"

lemma one_client_serves_every_clip_witness:
  "serve_clips (\<lambda>_. []) (openai_transcribe (Some (\<lambda>_ _ _. Inr ())) (\<lambda>c call log. (Inr [], log @ [(c, call)])) openai_defaults)
      \<lparr>max_upload_bytes = 4, allowed_types = []\<rparr> (\<lambda>_. None)
      [recorded_clip ''a.webm'', three_bytes [[1]], recorded_clip ''''] (None, []) =
    (Some (), map (\<lambda>name. ((), \<lparr>tr_model = ''whisper-1'', tr_filename = name, tr_data = [1, 2],
        tr_content_type = ''application/octet-stream''\<rparr>)) [''a.webm'', ''audio''])"
proof -
  let ?limits = "\<lparr>max_upload_bytes = 4, allowed_types = []\<rparr> :: upload_limits"
  have "List.map_filter (accepted_clip ?limits (\<lambda>_. None)) [recorded_clip ''a.webm'', three_bytes [[1]], recorded_clip '''']
      = [\<lparr>up_name = ''a.webm'', up_content_type = None, up_bytes = [1, 2]\<rparr>,
         \<lparr>up_name = '''', up_content_type = None, up_bytes = [1, 2]\<rparr>]"
    by (simp add: map_filter_simps accepted_clip_def acceptable_def recorded_clip_def three_bytes_def)
  with one_client_serves_every_clip [of ?limits "\<lambda>_ _ _. Inr ()" openai_defaults "()"
      "\<lambda>c call log. (Inr [], log @ [(c, call)])" "\<lambda>_. []" "\<lambda>_. None"
      "[recorded_clip ''a.webm'', three_bytes [[1]], recorded_clip '''']"]
  show ?thesis by (simp add: clip_call_def openai_defaults_def Let_def)
qed

end
