(* ===== verification/Pipeline.thy ===== *)
theory Pipeline
  imports AgentSession Lockstep Subagents
begin

text \<open>
  \<open>AgentSession.stream\<close> from end to end: the inner stages feed the race of \<open>Lockstep\<close>, onto
  whose queue the tool calls of \<open>Subagents\<close> announce, and what the race sends passes the
  prompts, the transcript and the error hook of \<open>AgentSession\<close>. The stages are the definitions
  of those theories; here is what their composition does to a run as the client receives it and
  to what is stored of it.
\<close>

section \<open>What an announcement can be\<close>

fun announces :: "event \<Rightarrow> bool" where
  "announces (SubagentStarted _ _ _) = True"
| "announces (SubagentFinished _) = True"
| "announces (SubagentError _ _) = True"
| "announces (CustomEvent _ _) = True"
| "announces _ = False"

fun is_custom :: "event \<Rightarrow> bool" where
  "is_custom (CustomEvent _ _) = True"
| "is_custom _ = False"

lemma announcements_announce: "list_all announces (announcements str_of tool c)"
proof -
  have "announces p" if child: "p \<in> set (child_steps str_of c)" for p
    using conjunct1 [OF steps_name_their_call [OF child]] by auto
  moreover have "announces (lifecycle_event d ph)" for d ph
    by (cases ph) (simp_all add: lifecycle_event_def subagent_lifecycle_def Let_def)
  ultimately show ?thesis by (simp add: announcements_def list_all_iff)
qed

lemma interleaves_all:
  "interleaves ts zs \<Longrightarrow> list_all (list_all P) ts \<Longrightarrow> list_all P zs"
proof (induction rule: interleaves.induct)
  case (one_moves i ts x xs zs)
  have "list_all P (ts ! i)"
    using one_moves.hyps(1) one_moves.prems unfolding list_all_length [of "list_all P"] by blast
  with one_moves.hyps(2) have head: "P x" "list_all P xs" by simp_all
  then have "list_all (list_all P) (ts[i := xs])"
    using one_moves.prems by (auto simp: list_all_iff dest!: set_update_subset_insert [THEN subsetD])
  with one_moves.IH head show ?case by simp
qed simp

section \<open>What the transcript is told\<close>

text \<open>The events that reach the transcript's items; every other event leaves them alone.\<close>

fun told :: "event \<Rightarrow> bool" where
  "told (TextMessageStart _) = True"
| "told (TextMessageContent _ _) = True"
| "told (ToolCallStart _ _ _) = True"
| "told (ToolCallArgs _ _) = True"
| "told (ToolCallEnd _) = True"
| "told (ToolCallResult _) = True"
| "told _ = False"

definition same_items :: "transcript \<Rightarrow> transcript \<Rightarrow> bool" where
  "same_items t u \<longleftrightarrow> items t = items u \<and> pending_calls t = pending_calls u"

lemma same_items_refl [simp]: "same_items t t"
  by (simp add: same_items_def)

lemma same_items_messages: "same_items t u \<Longrightarrow> messages t = messages u"
  by (simp add: same_items_def messages_def)

lemma untold_event: "\<not> told e \<Longrightarrow> \<exists>t'. add_event t e = Inr t' \<and> same_items t' t"
  by (cases e) (auto simp: same_items_def)

lemma told_event:
  assumes "told e" and "same_items t u" and "add_event t e = Inr t'"
  shows "\<exists>u'. add_event u e = Inr u' \<and> same_items t' u'"
  using assms by (cases e) (auto simp: same_items_def split: option.splits)

lemma told_event_Inl: "told e \<Longrightarrow> same_items t u \<Longrightarrow> add_event t e = Inl k \<Longrightarrow> add_event u e = Inl k"
  by (cases e) (auto simp: same_items_def split: option.splits)

lemma same_items_sym: "same_items t u \<Longrightarrow> same_items u t"
  by (simp add: same_items_def)

lemma same_items_trans: "same_items t u \<Longrightarrow> same_items u v \<Longrightarrow> same_items t v"
  by (simp add: same_items_def)

text \<open>Recording sees only what it is told: the other events change neither success nor items.\<close>

lemma record_told:
  "same_items t u \<Longrightarrow>
     (case record_events t es of
        Inl k \<Rightarrow> record_events u (filter told es) = Inl k
      | Inr t' \<Rightarrow> \<exists>u'. record_events u (filter told es) = Inr u' \<and> same_items t' u')"
proof (induction es arbitrary: t u)
  case (Cons e es)
  show ?case
  proof (cases "told e")
    case True
    show ?thesis
    proof (cases "add_event t e")
      case (Inl k)
      with told_event_Inl [OF True Cons.prems] True show ?thesis by simp
    next
      case (Inr t1)
      obtain u1 where "add_event u e = Inr u1" "same_items t1 u1"
        using told_event [OF True Cons.prems Inr] by blast
      with Cons.IH [of t1 u1] True Inr show ?thesis by (auto split: sum.splits)
    qed
  next
    case False
    obtain t1 where "add_event t e = Inr t1" "same_items t1 t"
      using untold_event [OF False] by blast
    moreover from this have "same_items t1 u" using Cons.prems same_items_trans by blast
    ultimately show ?thesis using Cons.IH [of t1 u] False by (simp split: sum.splits)
  qed
qed simp

lemma recorded_alike:
  assumes "record_events new_transcript xs = Inr t" and "filter told ys = filter told xs"
  shows "\<exists>t'. record_events new_transcript ys = Inr t' \<and> messages t' = messages t"
proof -
  obtain u where u: "record_events new_transcript (filter told xs) = Inr u" "same_items t u"
    using record_told [of new_transcript new_transcript xs] assms(1) by auto
  show ?thesis
  proof (cases "record_events new_transcript ys")
    case (Inl k)
    with record_told [of new_transcript new_transcript ys] u assms(2) show ?thesis by simp
  next
    case (Inr t')
    with record_told [of new_transcript new_transcript ys] u assms(2) have "same_items t' u" by simp
    with Inr u show ?thesis by (metis same_items_messages)
  qed
qed

section \<open>What passes the stages\<close>

fun frame_event :: "frame \<Rightarrow> event" where
  "frame_event (ProgressFrame p) = p"
| "frame_event (EventFrame e) = e"

definition native_events :: "native_step list \<Rightarrow> event list" where
  "native_events native = map (\<lambda>(c, i, e). e) native"

definition invalidations :: "native_step list \<Rightarrow> event list" where
  "invalidations native = concat (map (\<lambda>(c, i, e). i) native)"

lemma compaction_untold [simp]: "\<not> told (compaction_event c)"
  by (simp add: compaction_event_def split: prod.split)

lemma custom_untold: "list_all is_custom es \<Longrightarrow> filter told es = []"
proof (induction es)
  case (Cons e es)
  then show ?case by (cases e) simp_all
qed simp

lemma announces_untold: "announces e \<Longrightarrow> \<not> told e"
  by (cases e) simp_all

lemma quiet_untold: "quiet e \<Longrightarrow> \<not> told e"
  by (cases e) (simp_all add: quiet_def is_reasoning_type_def)

lemma told_unquiet: "filter told (filter (\<lambda>e. fwd \<or> \<not> quiet e) es) = filter told es"
  using quiet_untold by (induction es) auto

lemma told_placed:
  "list_all is_custom (concat (map (\<lambda>(c, i, e). i) kept)) \<Longrightarrow>
     filter told (concat (map (\<lambda>(c, i, e). i @ map compaction_event c @ [e]) kept))
       = filter told (map (\<lambda>(c, i, e). e) kept)"
proof (induction kept)
  case (Cons x kept)
  obtain c i e where x: "x = (c, i, e)" by (cases x)
  have "filter told (map compaction_event c) = []" by (simp add: filter_empty_conv)
  with Cons x show ?case by (simp add: custom_untold)
qed simp

text \<open>The inner stages tell the transcript exactly what the run itself would.\<close>

lemma told_inner:
  assumes "list_all is_custom (invalidations native @ li)"
  shows "filter told (inner_events fwd native lc li) = filter told (native_events native)"
proof -
  obtain kept cs "is" where k: "inner_events fwd native lc li =
       concat (map (\<lambda>(c, i, e). i @ map compaction_event c @ [e]) kept) @ is @ map compaction_event cs"
     "map (\<lambda>(c, i, e). e) kept = filter (\<lambda>e. fwd \<or> \<not> quiet e) (map (\<lambda>(c, i, e). e) native)"
     "concat (map (\<lambda>(c, i, e). i) kept) @ is = concat (map (\<lambda>(c, i, e). i) native) @ li"
    using inner_stages_compose [of fwd native lc li] by blast
  have "list_all is_custom (concat (map (\<lambda>(c, i, e). i) kept) @ is)"
    using assms unfolding k(3) by (simp add: invalidations_def)
  then have c: "list_all is_custom (concat (map (\<lambda>(c, i, e). i) kept))" "filter told is = []"
    by (simp_all add: custom_untold)
  have "filter told (map compaction_event cs) = []" by (simp add: filter_empty_conv)
  with c show ?thesis
    by (simp add: k(1) told_placed [OF c(1)] k(2) native_events_def told_unquiet del: filter_filter)
qed

lemma told_frames:
  assumes "list_all announces (List.map_filter progress_of fs)"
  shows "filter told (map frame_event fs) = filter told (List.map_filter event_of fs)"
  using assms
proof (induction fs)
  case (Cons f fs)
  then show ?case by (cases f) (simp_all add: map_filter_simps announces_untold)
qed (simp add: map_filter_simps)

lemma redacted_splits:
  assumes "list_all announces (List.map_filter progress_of fs)"
  shows "\<exists>wire. map frame_event wire = map (client_facing_error cfg) (map frame_event fs)
    \<and> List.map_filter event_of wire = map (client_facing_error cfg) (List.map_filter event_of fs)
    \<and> List.map_filter progress_of wire = List.map_filter progress_of fs"
  using assms
proof (induction fs)
  case (Cons f fs)
  define f' where "f' = (case f of ProgressFrame p \<Rightarrow> ProgressFrame p
    | EventFrame e \<Rightarrow> EventFrame (client_facing_error cfg e))"
  have kept: "client_facing_error cfg p = p" if "announces p" for p using that by (cases p) simp_all
  obtain wire where "map frame_event wire = map (client_facing_error cfg) (map frame_event fs)"
      "List.map_filter event_of wire = map (client_facing_error cfg) (List.map_filter event_of fs)"
      "List.map_filter progress_of wire = List.map_filter progress_of fs"
    using Cons by (cases f) (auto simp: map_filter_simps)
  then show ?case using Cons.prems kept
    by (intro exI [of _ "f' # wire"]) (cases f; simp add: f'_def map_filter_simps)
qed (simp add: map_filter_simps)

lemma stamped_told: "told (stamped names prompts e) = told e" "told e \<Longrightarrow> stamped names prompts e = e"
  by (cases "(names, prompts, e)" rule: stamped.cases; simp add: Let_def)+

lemma told_stamped: "filter told (stamp_prompts prompts names es) = filter told es"
  by (induction es arbitrary: names) (simp_all add: stamp_step stamped_told del: stamp_prompts.simps(2))

text \<open>
  A stage that leaves announcements alone acts on the run's own events as if they were by
  themselves; the prompts and the error hook are such stages.
\<close>

lemma stamp_splits:
  assumes "list_all announces (List.map_filter progress_of fs)"
  shows "\<exists>wire. map frame_event wire = stamp_prompts prompts names (map frame_event fs)
    \<and> List.map_filter event_of wire = stamp_prompts prompts names (List.map_filter event_of fs)
    \<and> List.map_filter progress_of wire = List.map_filter progress_of fs"
  using assms
proof (induction fs arbitrary: names)
  case (Cons f fs)
  show ?case
  proof (cases f)
    case (ProgressFrame p)
    with Cons.prems have "announces p" "list_all announces (List.map_filter progress_of fs)"
      by (simp_all add: map_filter_simps)
    moreover obtain wire where "map frame_event wire = stamp_prompts prompts names (map frame_event fs)"
        "List.map_filter event_of wire = stamp_prompts prompts names (List.map_filter event_of fs)"
        "List.map_filter progress_of wire = List.map_filter progress_of fs"
      using Cons.IH calculation(2) by blast
    ultimately show ?thesis
      by (intro exI [of _ "ProgressFrame p # wire"], cases p) (simp_all add: ProgressFrame map_filter_simps)
  next
    case (EventFrame e)
    have prems: "list_all announces (List.map_filter progress_of fs)"
      using Cons.prems EventFrame by (simp add: map_filter_simps)
    obtain wire where "map frame_event wire = stamp_prompts prompts (names_after names e) (map frame_event fs)"
        "List.map_filter event_of wire = stamp_prompts prompts (names_after names e) (List.map_filter event_of fs)"
        "List.map_filter progress_of wire = List.map_filter progress_of fs"
      using Cons.IH [OF prems] by blast
    then show ?thesis
      by (intro exI [of _ "EventFrame (stamped names prompts e) # wire"])
         (simp add: EventFrame map_filter_simps stamp_step del: stamp_prompts.simps)
  qed
qed (simp add: map_filter_simps)

section \<open>A run that ends\<close>

text \<open>A store that may refuse an anonymous write but raises nothing else.\<close>

definition store_holds :: "(row \<Rightarrow> raised option) \<Rightarrow> bool" where
  "store_holds refuses \<longleftrightarrow> (\<forall>r e. refuses r \<noteq> Some (Unhandled e))"

lemma finalize_settles:
  "store_holds refuses \<Longrightarrow> \<exists>acts. finalize ad owner refuses s t reason = (acts, None)"
  by (auto simp: store_holds_def finalize_def save_messages_def Let_def split: option.splits raised.splits)

lemma drive_runs_out:
  assumes "store_holds refuses"
    and "ss_persists s \<Longrightarrow> \<exists>t'. record_events t (emitted ms) = Inr t'"
  shows "\<exists>effects t'. drive ad owner refuses s t ms
    = (map (client_facing_error (ss_config s)) (emitted ms), effects, RanOut, t')"
  using assms(2)
proof (induction ms arbitrary: t)
  case (Cons m ms)
  show ?case
  proof (cases m)
    case (Completes new)
    with Cons.IH [of t] Cons.prems show ?thesis by (auto split: prod.split)
  next
    case (Emits e)
    have "\<exists>t1. (if ss_persists s then add_event t e else Inr t) = Inr t1
        \<and> (ss_persists s \<longrightarrow> (\<exists>t'. record_events t1 (emitted ms) = Inr t'))"
      using Cons.prems Emits by (auto dest: bind_result_InrD)
    then obtain t1 where t1: "(if ss_persists s then add_event t e else Inr t) = Inr t1"
        "ss_persists s \<Longrightarrow> \<exists>t'. record_events t1 (emitted ms) = Inr t'" by blast
    obtain acts where "(case e of RunError message \<Rightarrow> finalize ad owner refuses s t1 (failed_words message)
        | _ \<Rightarrow> ([], None)) = (acts, None)"
      using finalize_settles [OF assms(1), of ad owner s t1] by (cases e) auto
    with Cons.IH [OF t1(2)] Emits t1(1) show ?thesis by auto
  qed
qed simp

lemma race_delivered:
  assumes "reachable calm es fail c"
  shows "mset (progress_out c) \<subseteq># mset (announced c)" "prefix (events_out c) es"
    "gen c = Returned \<Longrightarrow> events_out c = es \<and> mset (progress_out c) = mset (announced c)"
proof -
  note ok = race_okD [OF reachable_ok [OF assms]]
  show "mset (progress_out c) \<subseteq># mset (announced c)" "prefix (events_out c) es"
    using ok(1,2,3) by simp_all
  show "events_out c = es \<and> mset (progress_out c) = mset (announced c)" if "gen c = Returned"
    using ok(1,2,3,7) ok(8,9,10) that by auto
qed

lemma announced_announce:
  assumes "reachable calm es fail c" and "interleaves (map (announcements str_of tool) calls) all"
    and "prefix (announced c) all"
  shows "list_all announces (List.map_filter progress_of (out c))"
proof -
  have "list_all announces all"
    by (rule interleaves_all [OF assms(2)]) (simp add: list_all_iff announcements_announce [unfolded list_all_iff])
  then have "list_all announces (announced c)" using assms(3) by (auto simp: prefix_def)
  moreover have "set (progress_out c) \<subseteq> set (announced c)"
    using race_delivered [OF assms(1)] by (metis set_mset_mono set_mset_mset)
  ultimately show ?thesis by (auto simp: list_all_iff progress_out_def)
qed


lemma told_raced:
  assumes "list_all is_custom (invalidations native @ li)"
    and "reachable calm (inner_events fwd native lc li) fail c"
    and "list_all announces (List.map_filter progress_of (out c))"
  shows "\<exists>k. filter told (map frame_event (out c)) = filter told (take k (native_events native))"
proof -
  have "\<exists>k. filter P xs = filter P (take k ys)" if "prefix (filter P xs) (filter P ys)" for P and xs ys :: "event list"
    using that
  proof (induction ys arbitrary: xs rule: rev_induct)
    case (snoc y ys)
    show ?case
    proof (cases "prefix (filter P xs) (filter P ys)")
      case True
      then obtain k where "filter P xs = filter P (take k ys)" using snoc.IH by blast
      then have "filter P xs = filter P (take (min k (length ys)) (ys @ [y]))"
        by (simp add: min_def)
      then show ?thesis by blast
    next
      case False
      then have "filter P xs = filter P (ys @ [y])" using snoc.prems by (auto split: if_splits)
      then show ?thesis by (intro exI [of _ "length (ys @ [y])"]) simp
    qed
  qed auto
  moreover have "prefix (filter told (map frame_event (out c))) (filter told (native_events native))"
  proof -
    obtain zs where zs: "inner_events fwd native lc li = events_out c @ zs"
      using race_delivered(2) [OF assms(2)] by (auto simp: prefix_def)
    have "filter told (native_events native) = filter told (events_out c) @ filter told zs"
      unfolding told_inner [OF assms(1), of fwd lc, symmetric] zs by simp
    then show ?thesis by (simp add: told_frames [OF assms(3)] events_out_def)
  qed
  ultimately show ?thesis by blast
qed

lemma recorded_take:
  assumes "\<And>d. bracketed d False es"
  shows "\<exists>t. record_events new_transcript (take k es) = Inr t"
proof -
  obtain t where "record_events new_transcript (take k es @ drop k es) = Inr t"
    using assms record_events_bracketed [of new_transcript es] by (auto simp: new_transcript_def)
  then show ?thesis unfolding record_events_append by (auto dest: bind_result_InrD)
qed

text \<open>
  C18. A client that stays receives the whole run: once the race has ended and unless the store
  breaks, the stream runs to its end, and the frames are the run's own events - as the inner
  stages arranged them, with prompts stamped and failures redacted as if nothing else had been
  on the stream - with every announcement of the delegations among them and nothing else, in
  whatever order tool calls announced, the client read and the loop woke its tasks.
\<close>

theorem client_receives_the_whole_run:
  assumes "reachable calm (inner_events (forward_reasoning (ss_config s)) native lc li) fail c"
    and "gen c = Returned"
    and "interleaves (map (announcements str_of tool) calls) (announced c)"
    and "list_all is_custom (invalidations native @ li)"
    and "\<And>d. bracketed d False (native_events native)"
    and "store_holds refuses"
    and "emitted moments = map frame_event (out c)"
  shows "\<exists>wire effects.
    session_stream ad owner refuses s moments False = (map frame_event wire, effects, RanOut)
    \<and> List.map_filter event_of wire =
        map (client_facing_error (ss_config s))
          (stamp_approval_prompts (prompts_of s)
            (inner_events (forward_reasoning (ss_config s)) native lc li))
    \<and> mset (List.map_filter progress_of wire) = mset (announced c)"
proof -
  let ?P = "prompts_of s" and ?g = "client_facing_error (ss_config s)"
  have ann: "list_all announces (List.map_filter progress_of (out c))"
    by (rule announced_announce [OF assms(1,3)]) simp
  obtain w where w: "map frame_event w = stamp_approval_prompts ?P (map frame_event (out c))"
      "List.map_filter event_of w = stamp_approval_prompts ?P (events_out c)"
      "List.map_filter progress_of w = progress_out c"
    unfolding stamp_approval_prompts_def events_out_def progress_out_def using stamp_splits [OF ann] by blast
  obtain wire where wire: "map frame_event wire = map ?g (map frame_event w)"
      "List.map_filter event_of wire = map ?g (List.map_filter event_of w)"
      "List.map_filter progress_of wire = List.map_filter progress_of w"
    using redacted_splits [of w "ss_config s"] ann w(3) by (auto simp: progress_out_def)
  obtain k t where "filter told (map frame_event (out c)) = filter told (take k (native_events native))"
      "record_events new_transcript (take k (native_events native)) = Inr t"
    using told_raced [OF assms(4,1) ann] recorded_take [OF assms(5)] by blast
  then have "\<exists>t'. record_events new_transcript (stamp_approval_prompts (prompts_of s) (emitted moments)) = Inr t'"
    using recorded_alike [of "take k (native_events native)" t "stamp_approval_prompts (prompts_of s) (emitted moments)"]
    by (auto simp: assms(7) stamp_approval_prompts_def told_stamped)
  then obtain effects t' where "drive ad owner refuses s new_transcript (stamp_moments (prompts_of s) Map.empty moments)
      = (map ?g (stamp_approval_prompts (prompts_of s) (emitted moments)), effects, RanOut, t')"
    using drive_runs_out [OF assms(6), of s new_transcript "stamp_moments (prompts_of s) Map.empty moments" ad owner]
    by (auto simp: emitted_stamped stamp_approval_prompts_def)
  then have "session_stream ad owner refuses s moments False = (map frame_event wire, effects, RanOut)"
    by (simp add: session_stream_stamped wire(1) w(1) assms(7))
  moreover have "List.map_filter event_of wire = map ?g (stamp_approval_prompts ?P
      (inner_events (forward_reasoning (ss_config s)) native lc li))"
    using wire(2) w(2) race_delivered(3) [OF assms(1,2)] by simp
  moreover have "mset (List.map_filter progress_of wire) = mset (announced c)"
    using wire(3) w(3) race_delivered(3) [OF assms(1,2)] by simp
  ultimately show ?thesis by blast
qed

section \<open>A run that is left\<close>

lemma inner_all:
  assumes "list_all P (native_events native)" and "list_all P (invalidations native @ li)"
    and "\<And>c. P (compaction_event c)"
  shows "list_all P (inner_events fwd native lc li)"
proof -
  obtain kept cs "is" where k: "inner_events fwd native lc li =
       concat (map (\<lambda>(c, i, e). i @ map compaction_event c @ [e]) kept) @ is @ map compaction_event cs"
     "map (\<lambda>(c, i, e). e) kept = filter (\<lambda>e. fwd \<or> \<not> quiet e) (map (\<lambda>(c, i, e). e) native)"
     "concat (map (\<lambda>(c, i, e). i) kept) @ is = concat (map (\<lambda>(c, i, e). i) native) @ li"
    using inner_stages_compose [of fwd native lc li] by blast
  have cps: "list_all P (map compaction_event cs)" for cs using assms(3) by (simp add: list_all_iff)
  then have placed: "list_all P (map (\<lambda>(c, i, e). e) ks) \<Longrightarrow> list_all P (concat (map (\<lambda>(c, i, e). i) ks)) \<Longrightarrow>
      list_all P (concat (map (\<lambda>(c, i, e). i @ map compaction_event c @ [e]) ks))" for ks
    by (induction ks) (simp_all split: prod.splits)
  have "list_all P (map (\<lambda>(c, i, e). e) kept)"
    unfolding k(2) using assms(1) by (auto simp: native_events_def list_all_iff)
  moreover have "list_all P (concat (map (\<lambda>(c, i, e). i) kept) @ is)"
    unfolding k(3) using assms(2) by (simp add: invalidations_def)
  ultimately show ?thesis using placed [of kept] cps [of cs] by (simp add: k(1))
qed

lemma inner_ordinary:
  assumes "list_all ordinary (native_events native)" and "list_all is_custom (invalidations native @ li)"
  shows "list_all ordinary (inner_events fwd native lc li)"
proof (rule inner_all [OF assms(1)])
  have "is_custom e \<Longrightarrow> ordinary e" for e by (cases e) (simp_all add: ordinary_def)
  with assms(2) show "list_all ordinary (invalidations native @ li)" by (simp add: list_all_iff)
qed (simp add: compaction_event_def ordinary_def split: prod.split)

lemma frames_ordinary:
  "list_all announces (List.map_filter progress_of fs) \<Longrightarrow> list_all ordinary (List.map_filter event_of fs) \<Longrightarrow>
     list_all ordinary (map frame_event fs)"
proof (induction fs)
  case (Cons f fs)
  have "announces e \<Longrightarrow> ordinary e" for e by (cases e) (simp_all add: ordinary_def)
  with Cons show ?case by (cases f) (simp_all add: map_filter_simps)
qed simp


section \<open>Concrete races\<close>

text \<open>One event, and a delegation that announces while the client is handed it.\<close>

definition delegated :: observed_call where
  "delegated = \<lparr>oc_tool = ''d'', oc_id = ''1'', oc_args = fmempty, oc_child = [], oc_ends = Returns ()\<rparr>"

definition raw_event :: event where
  "raw_event = OtherEvent ''RAW''"

lemma raw_inner: "inner_events True [([], [], raw_event)] [] [] = [raw_event]"
  by (simp add: inner_events_def compaction_tail_def compaction_stage_def inject_compaction_events_def
      inject_invalidation_events_def inject_events_placed)

lemma delegated_announces:
  "announcements (\<lambda>_. []) ''d'' delegated
     = [SubagentStarted (subagent_run_id ''1'') [] ''1'', SubagentFinished (subagent_run_id ''1'')]"
  by (simp add: announcements_def delegated_def child_steps_def map_filter_simps lifecycle_event_def
      subagent_lifecycle_def delegation_of_def closing_phase_def Let_def)

lemma one_thread: "interleaves [xs] xs"
proof (induction xs)
  case (Cons x xs)
  then show ?case by (intro interleaves.one_moves [where i = 0 and xs = xs]) simp_all
qed (simp add: interleaves.all_done)

lemma client_receives_the_whole_run_witness:
  "\<exists>wire effects. session_stream plain_adapter (\<lambda>_. None) (\<lambda>_. None) plain_session
      (map Emits [raw_event, SubagentFinished (subagent_run_id ''1''), SubagentStarted (subagent_run_id ''1'') [] ''1''])
      False = (map frame_event wire, effects, RanOut)
    \<and> List.map_filter event_of wire = [raw_event] \<and> length (List.map_filter progress_of wire) = 2"
proof -
  let ?p1 = "SubagentStarted (subagent_run_id ''1'') [] ''1''" and ?p2 = "SubagentFinished (subagent_run_id ''1'')"
  let ?c = "racing [] PumpDone None [] Waiting Returned True
    [EventFrame raw_event, ProgressFrame ?p2, ProgressFrame ?p1] [?p1, ?p2] [raw_event] 0"
  let ?native = "[([], [], raw_event)] :: native_step list"
  have r: "reachable False (inner_events (forward_reasoning (ss_config plain_session)) ?native [] []) None ?c"
    using overtaken [of raw_event ?p2 ?p1] by (simp add: plain_session_def raw_inner)
  have i: "interleaves (map (announcements (\<lambda>_. []) ''d'') [delegated]) (announced ?c)"
    using one_thread [of "[?p1, ?p2]"] by (simp add: delegated_announces)
  have stages: "stamp_approval_prompts (prompts_of plain_session) es = es"
      "client_facing_error cfg raw_event = raw_event"
      "inner_events (forward_reasoning (ss_config plain_session)) ?native [] [] = [raw_event]" for es cfg
    by (simp_all add: plain_session_facts) (simp_all add: plain_session_def raw_event_def raw_inner [unfolded raw_event_def])
  have "list_all is_custom (invalidations ?native @ [])" "bracketed d False (native_events ?native)"
      "store_holds (\<lambda>_. None)" for d
    by (simp_all add: invalidations_def native_events_def raw_event_def store_holds_def)
  from client_receives_the_whole_run [OF r _ i this, of "map Emits [raw_event, ?p2, ?p1]" plain_adapter "\<lambda>_. None"]
  obtain wire effects where w: "session_stream plain_adapter (\<lambda>_. None) (\<lambda>_. None) plain_session
        (map Emits [raw_event, ?p2, ?p1]) False = (map frame_event wire, effects, RanOut)"
      "List.map_filter event_of wire = [raw_event]" "mset (List.map_filter progress_of wire) = mset [?p1, ?p2]"
    unfolding stages by (auto simp: stages)
  from arg_cong [OF w(3), of size] have "length (List.map_filter progress_of wire) = 2"
    unfolding size_mset by simp
  with w(1,2) show ?thesis by blast
qed


end
