(* ===== verification/Requests.thy ===== *)
theory Requests
  imports RunParts Pipeline
begin

text \<open>
  From the HTTP request to the stored row, and from one run of a conversation to the next: the
  end of \<open>DjangoAGUIView.__call__\<close> (\<open>agent/agui_view.py\<close>), where the session is opened on what
  the request was found to be, and what the components of a run guarantee together.
\<close>

section \<open>The session a request opens\<close>

text \<open>
  The acting user's id and the browser session's key are read off the request by the substrate
  and by Django: \<open>user_id\<close> and \<open>session_key\<close>.
\<close>

definition open_session ::
    "session_config \<Rightarrow> bool \<Rightarrow> (http_request \<Rightarrow> string option) \<Rightarrow> (http_request \<Rightarrow> string option) \<Rightarrow>
     ('m, 'a) run_parts \<Rightarrow> model_message list run_plan \<Rightarrow> http_request \<Rightarrow> toolset session" where
  "open_session cfg persists user_id session_key pt plan rq =
     \<lparr>ss_thread_id = ri_thread_id (rp_input plan), ss_run_id = ri_run_id (rp_input plan),
      ss_posted = ri_messages (rp_input plan), ss_context = ri_context (rp_input plan),
      ss_history = rp_history plan, ss_source = rp_source_messages plan,
      ss_instructions = Some (pt_instructions pt), ss_toolsets = Some (pt_toolsets pt),
      ss_config = cfg, ss_persists = persists, ss_owner = user_id rq,
      ss_session_key = session_key rq, ss_ip = rq_remote_addr rq\<rparr>"

text \<open>
  \<open>None\<close> on the right is a refusal the view answered itself. The agent built on the first run is
  part of what changes.
\<close>

definition serve_run ::
    "('m, 'p, 'a, 'o) substrate \<Rightarrow> ('m, 'i, 'p, 'a, 'o) view_args \<Rightarrow> (model_message list, 's) endpoint \<Rightarrow>
     session_config \<Rightarrow> (http_request \<Rightarrow> string option) \<Rightarrow> (http_request \<Rightarrow> string option) \<Rightarrow>
     string option \<Rightarrow> http_request \<Rightarrow> 'a option \<Rightarrow> 's \<Rightarrow> (string + toolset session option) \<times> 'a option \<times> 's" where
  "serve_run sb va ep cfg user_id session_key resume_from rq built s =
     (case agui_view ep resume_from rq s of
        (Inl e, s') \<Rightarrow> (Inl e, built, s')
      | (Inr (Serves headers plan), s') \<Rightarrow>
          (case assemble_run sb va rq (rp_input plan) resume_from built of
             (Inl e, built') \<Rightarrow> (Inl e, built', s')
           | (Inr pt, built') \<Rightarrow>
               (Inr (Some (open_session cfg (\<not> co_is_null (ep_threads ep)) user_id session_key pt plan rq)),
                built', s'))
      | (Inr refusal, s') \<Rightarrow> (Inr None, built, s'))"

lemma served_session:
  assumes "serve_run sb va ep cfg user_id session_key resume_from rq built s = (Inr (Some sess), built', s')"
  shows "\<exists>headers plan. agui_view ep resume_from rq s = (Inr (Serves headers plan), s')
    \<and> ss_thread_id sess = ri_thread_id (rp_input plan) \<and> ss_posted sess = ri_messages (rp_input plan)
    \<and> ss_history sess = rp_history plan \<and> ss_source sess = rp_source_messages plan
    \<and> ss_persists sess = (\<not> co_is_null (ep_threads ep))"
  using assms
  by (auto simp: serve_run_def open_session_def split: prod.splits sum.splits response.splits)

lemma viewed_plan:
  assumes "agui_view ep resume_from rq s = (Inr (Serves headers plan), s')"
  shows "seeded_from ep resume_from rq plan s'"
  using assms
  by (auto simp: agui_view_def split: option.splits if_splits prod.splits sum.splits
      dest: prepare_run_streams)


section \<open>The next run\<close>

lemma recorded_unstripped: "transcript_ok t \<Longrightarrow> strip_binary_content (messages t) = messages t"
proof -
  have "strip_binary_content ms = ms"
    if "\<And>m. m \<in> set ms \<Longrightarrow> (\<exists>x c. payload m = ToolMsg x c) \<or> (\<exists>x c. payload m = AssistantMsg x c)" for ms
    using that
  proof (induction ms)
    case (Cons m ms)
    have "strip_message m = Some m" using Cons.prems [of m] by auto
    with Cons show ?case by (simp add: strip_binary_content_def map_filter_simps)
  qed (simp add: strip_binary_content_def map_filter_simps)
  then show "transcript_ok t \<Longrightarrow> strip_binary_content (messages t) = messages t"
    using recorded_kinds by blast
qed

lemma recorded_keyed: "transcript_ok t \<Longrightarrow> m \<in> set (messages t) \<Longrightarrow> has_key m"
  using recorded_kinds [of t m] by (cases "payload m") (simp_all add: has_key_def kind_and_key_def)

lemma has_key_body: "body m = body n \<Longrightarrow> has_key m = has_key n"
  by (simp add: body_eq_iff has_key_def activity_key_def kind_and_key_def)

text \<open>A snapshot that holds the row: it dumps to the row's messages, under fresh ids.\<close>

definition snapshot_of :: "adapter \<Rightarrow> model_message list \<Rightarrow> message list \<Rightarrow> bool" where
  "snapshot_of ad kept row \<longleftrightarrow>
     (let dumped = strip_binary_content (dump_messages (ad_dump ad) kept)
      in map body dumped = map body row \<and> msg_id ` set dumped \<inter> msg_id ` set row = {})"

lemma resumed_prior:
  assumes "ss_history s = Some h" and "ss_source s = Some row"
    and "continued_history (ad_loads ad) (\<lambda>m. ad_dump ad [m]) (ad_pending ad) h (ss_posted s) = (kept, turn)"
    and "snapshot_of ad kept row" and "distinct (map msg_id row)"
    and "msg_id ` set turn \<inter> msg_id ` set row = {}"
  shows "prior_messages ad s =
    map2 (\<lambda>m r. if has_key m then r else m) (strip_binary_content (dump_messages (ad_dump ad) kept)) row @ turn"
proof -
  let ?dumped = "strip_binary_content (dump_messages (ad_dump ad) kept)"
  have d: "map body ?dumped = map body row" "msg_id ` set ?dumped \<inter> msg_id ` set row = {}"
    using assms(4) by (simp_all add: snapshot_of_def Let_def)
  then have len: "length ?dumped = length row" by (metis length_map)
  show ?thesis
  proof (cases "row = []")
    case True
    with len have "?dumped = []" by simp
    with assms(1-3) True show ?thesis by (simp add: prior_messages_def Let_def)
  next
    case False
    have "lend_stored_ids ?dumped row (set (map msg_id turn))
        = map2 (\<lambda>m r. if has_key m then r else m) ?dumped row"
      unfolding lend_stored_ids_def
      using lend_prefix [of row ?dumped "\<lparr>cursor = \<lambda>_. 0, position = 0\<rparr>" ?dumped "set (map msg_id ?dumped)"
          "set (map msg_id turn)"] d len assms(5,6)
      by (simp add: walked_exactly_def map_filter_simps)
    with assms(1-3) False show ?thesis by (simp add: prior_messages_def Let_def)
  qed
qed

lemma lent_parts:
  assumes "map body ds = map body (xs @ ys)" and "\<And>m. m \<in> set ys \<Longrightarrow> has_key m"
  shows "\<exists>before. map2 (\<lambda>m r. if has_key m then r else m) ds (xs @ ys) = before @ ys
    \<and> map body before = map body xs"
proof -
  obtain us vs where s: "ds = us @ vs" "map body us = map body xs" "map body vs = map body ys"
    using assms(1) by (metis map_append map_eq_append_conv)
  then have l: "length us = length xs" by (metis length_map)
  have "map2 (\<lambda>m r. if has_key m then r else m) vs ys = ys"
    using s(3) assms(2)
  proof (induction vs arbitrary: ys)
    case (Cons v vs)
    then obtain y ys' where "ys = y # ys'" by (cases ys) auto
    with Cons has_key_body [of v y] show ?case by simp
  qed simp
  moreover have "map body (map2 (\<lambda>m r. if has_key m then r else m) us xs) = map body xs"
    using s(2)
  proof (induction us arbitrary: xs)
    case (Cons u us)
    then show ?case by (cases xs) auto
  qed simp
  ultimately show ?thesis using s(1) l by (intro exI) auto
qed

text \<open>
  C3. An id the client saw survives a resume: when a run completed and its dump holds what
  streamed, the row it saved ends with the messages it streamed, each under the id it streamed
  under; and a run resumed from the snapshot of that conversation, completed, failed or cancelled
  alike, saves those very messages again, under those ids, after the conversation before them and
  in front of the new turn - although the snapshot names every one of them afresh.
\<close>

theorem streamed_ids_survive_a_resume:
  assumes "ss_persists s1" and "\<And>r. refuses r = None"
    and "list_all ordinary (es @ tail)" and "record_events new_transcript es = Inr t"
    and "record_events t tail = Inr t'"
    and "fully_announced t" and "map body (dump_messages (ad_dump ad) new) = map body (messages t)"
    and "session_stream ad owner refuses s1 (map Emits es @ Completes new # map Emits tail) False
      = (frames1, effects1, ending1)" and "Saved r1 \<in> set effects1"
    and "ss_history s2 = Some h" and "ss_source s2 = Some (row_messages r1)"
    and "continued_history (ad_loads ad) (\<lambda>m. ad_dump ad [m]) (ad_pending ad) h (ss_posted s2) = (kept, turn)"
    and "snapshot_of ad kept (row_messages r1)" and "distinct (map msg_id (row_messages r1))"
    and "msg_id ` set turn \<inter> msg_id ` set (row_messages r1) = {}"
    and "session_stream ad owner2 refuses2 s2 moments disconnected = (frames2, effects2, ending2)"
    and "Saved r2 \<in> set effects2"
  shows "row_messages r1 = prior_messages ad s1 @ messages t
    \<and> (\<exists>before after. row_messages r2 = before @ messages t @ turn @ after
        \<and> map body before = map body (prior_messages ad s1))"
proof
  have ok: "transcript_ok t" using assms(4) record_events_ok new_transcript_ok by blast
  have "distinct (map msg_id (messages t))" using assms(6) by (simp add: fully_announced_def)
  then have "with_streamed_ids t (dump_messages (ad_dump ad) new) = messages t"
    unfolding with_streamed_ids_def using lend_ids_restores [OF announced_restores [OF ok assms(6,7)] assms(7)] by simp
  with completed_run [of s1 refuses es tail t t' ad owner new, OF assms(1-5)] assms(8,9)
  show r1: "row_messages r1 = prior_messages ad s1 @ messages t"
    by (auto simp: row_of_def recorded_unstripped [OF ok])
  let ?dumped = "strip_binary_content (dump_messages (ad_dump ad) kept)"
  have "map body ?dumped = map body (prior_messages ad s1 @ messages t)"
    using assms(13) by (simp add: snapshot_of_def Let_def r1)
  from lent_parts [OF this recorded_keyed [OF ok]] obtain before
    where b: "map2 (\<lambda>m r. if has_key m then r else m) ?dumped (row_messages r1) = before @ messages t"
      "map body before = map body (prior_messages ad s1)"
    unfolding r1 by blast
  have "run_row ad owner2 s2 r2" by (rule session_rows [OF assms(16,17)])
  then obtain after where "row_messages r2 = prior_messages ad s2 @ after"
    by (auto simp: run_row_def row_of_def)
  with resumed_prior [OF assms(10-15)] b(1) have "row_messages r2 = before @ messages t @ turn @ after" by simp
  with b(2) show "\<exists>before after. row_messages r2 = before @ messages t @ turn @ after
      \<and> map body before = map body (prior_messages ad s1)" by blast
qed

section \<open>Two requests\<close>

definition open_endpoint :: "(model_message list, unit) endpoint" where
  "open_endpoint = \<lparr>ep_deny = (\<lambda>_. None), ep_throttle = None, ep_parse = (\<lambda>_. Inr plain_input),
     ep_steps = None,
     ep_threads = \<lparr>co_is_null = False, co_load = (\<lambda>_ _ _. Inr None), co_exists = (\<lambda>_ _ _. Inr False)\<rparr>,
     ep_row_parse = (\<lambda>_. None)\<rparr>"

definition first_session :: "toolset session" where
  "first_session = open_session (ss_config plain_session) True (\<lambda>_. Some ''7'') (\<lambda>_. None)
     \<lparr>pt_agent = (), pt_model = Object (), pt_instructions = instructions_of_run plain_conversions (\<lambda>_. []) hook_only plain_request,
      pt_toolsets = endpoint_toolsets (\<lambda>_ _. []) two_sources plain_request, pt_capabilities = [],
      pt_deps = build_deps hook_only plain_request\<rparr>
     \<lparr>rp_input = plain_input, rp_history = None, rp_source_messages = None\<rparr> plain_request"

lemma first_session_served:
  "serve_run total_substrate hook_only open_endpoint (ss_config plain_session) (\<lambda>_. Some ''7'') (\<lambda>_. None)
     None plain_request (Some ()) () = (Inr (Some first_session), Some (), ())"
  by (simp add: serve_run_def agui_view_def open_endpoint_def plain_request_def throttled_def prepare_run_def
      event_stream_def assemble_run_def the_agent_def run_model_def hook_only_def resolve_model_value_def
      bind_result_Inr step_persistence_capabilities_def total_substrate_def first_session_def)


definition redumping_adapter :: adapter where
  "redumping_adapter = \<lparr>ad_loads = (\<lambda>_. []),
     ad_dump = (\<lambda>ms. concat (map (\<lambda>m. map (\<lambda>n. n\<lparr>msg_id := ''d'' @ msg_id n\<rparr>)
       (if is_response m then answered_messages else ss_posted plain_session)) ms)),
     ad_pending = (\<lambda>_. [])\<rparr>"

definition stored_history :: "model_message list" where
  "stored_history = [ModelRequest [UserPrompt], ModelResponse []]"

definition first_row :: "message list" where
  "first_row = ss_posted plain_session @ answered_messages"

definition next_turn :: "message list" where
  "next_turn = [plain_message ''n'' (UserMsg (PlainText []))]"

definition resumed_session :: "unit session" where
  "resumed_session = plain_session\<lparr>ss_posted := next_turn, ss_history := Some stored_history, ss_source := Some first_row\<rparr>"

lemma redumped:
  "dump_messages (ad_dump redumping_adapter) [ModelResponse []] = map (\<lambda>n. n\<lparr>msg_id := ''d'' @ msg_id n\<rparr>) answered_messages"
  "dump_messages (ad_dump redumping_adapter) stored_history = map (\<lambda>n. n\<lparr>msg_id := ''d'' @ msg_id n\<rparr>) first_row"
  by (simp_all add: dump_messages_def redumping_adapter_def answered_messages_def with_stored_outcome_def
      outcomes_by_call_def stored_history_def first_row_def plain_session_def)

lemma resumes_whole:
  "continued_history (ad_loads redumping_adapter) (\<lambda>m. ad_dump redumping_adapter [m]) (ad_pending redumping_adapter)
     stored_history next_turn = (stored_history, next_turn)"
  by (simp add: continued_history_def redumping_adapter_def next_turn_def new_turn_of_def turn_id_def
      cut_history_def resubmitted_def Let_def)

lemma streamed_ids_survive_a_resume_witness:
  "\<exists>r1 r2 before after. Saved r1 \<in> set (fst (snd (session_stream redumping_adapter (\<lambda>_. None) (\<lambda>_. None) plain_session
        (map Emits answered_run @ [Completes [ModelResponse []]]) False)))
     \<and> Saved r2 \<in> set (fst (snd (session_stream redumping_adapter (\<lambda>_. None) (\<lambda>_. None) resumed_session [] True)))
     \<and> row_messages r1 = first_row
     \<and> row_messages r2 = before @ answered_messages @ next_turn @ after"
proof -
  let ?t = answered_transcript and ?none = "\<lambda>_ :: string. None :: string option" and ?ad = redumping_adapter
  let ?r1 = "row_of ?none plain_session first_row"
  have o: "list_all ordinary (answered_run @ [])" by (simp add: answered_run_def ordinary_def)
  have bodies: "map body (dump_messages (ad_dump ?ad) [ModelResponse []]) = map body (messages ?t)"
    by (simp add: redumped answered_transcript_messages)
  have ok: "transcript_ok ?t" using answered_run_recorded record_events_ok new_transcript_ok by blast
  have "with_streamed_ids ?t (dump_messages (ad_dump ?ad) [ModelResponse []]) = answered_messages"
    unfolding with_streamed_ids_def
    using lend_ids_restores [OF announced_restores [OF ok answered_transcript_announced bodies] bodies]
      answered_transcript_announced by (simp add: fully_announced_def answered_transcript_messages)
  then obtain frames1 where one: "session_stream ?ad ?none (\<lambda>_. None) plain_session
      (map Emits answered_run @ Completes [ModelResponse []] # map Emits []) False = (frames1, [Saved ?r1], RanOut)"
    using completed_run [of plain_session "\<lambda>_. None" answered_run "[]" ?t ?t ?ad ?none "[ModelResponse []]"]
      answered_run_recorded o recorded_unstripped [OF ok]
    by (simp add: plain_session_facts answered_transcript_messages first_row_def)
  obtain r2 frames2 effects2 ending2 where two: "session_stream ?ad ?none (\<lambda>_. None) resumed_session [] True
      = (frames2, effects2, ending2)" "Saved r2 \<in> set effects2"
    by (simp add: session_stream_stamped finalize_def save_messages_def Let_def resumed_session_def plain_session_def)
  have row: "row_messages ?r1 = first_row" by (simp add: row_of_def)
  have kept: "continued_history (ad_loads ?ad) (\<lambda>m. ad_dump ?ad [m]) (ad_pending ?ad) stored_history
      (ss_posted resumed_session) = (stored_history, next_turn)"
    using resumes_whole by (simp add: resumed_session_def)
  have rows: "snapshot_of ?ad stored_history first_row" "distinct (map msg_id first_row)"
      "msg_id ` set next_turn \<inter> msg_id ` set first_row = {}"
    by (simp_all add: snapshot_of_def redumped Let_def first_row_def answered_messages_def plain_session_def
        strip_binary_content_def map_filter_simps next_turn_def)
  have s2: "ss_history resumed_session = Some stored_history" "ss_source resumed_session = Some (row_messages ?r1)"
    by (simp_all add: resumed_session_def row)
  from streamed_ids_survive_a_resume [of plain_session "\<lambda>_. None" answered_run "[]" ?t ?t ?ad "[ModelResponse []]" ?none
      frames1 "[Saved ?r1]" RanOut ?r1 resumed_session stored_history stored_history next_turn ?none "\<lambda>_. None" "[]" True
      frames2 effects2 ending2 r2]
    o answered_run_recorded answered_transcript_announced bodies one s2 kept rows two row
  have "\<exists>before after. row_messages r2 = before @ answered_messages @ next_turn @ after"
    by (auto simp: plain_session_facts answered_transcript_messages)
  with one two row show ?thesis by force
qed

end
