(* ===== verification/Fixture.thy ===== *)
theory Fixture
  imports Http
begin

text \<open>
  \<open>scripts/generate_subagent_fixture.py\<close>, which records what a client receives when a run
  delegates: the frames it decodes from the stream and the names it settles, so that the file is
  the same on every run. The run that is recorded and JSON decoding and dumping are parameters.
\<close>

section \<open>The names of the fixture\<close>

definition FROZEN_TIMESTAMP :: int where
  "FROZEN_TIMESTAMP = 1735689600000"

definition SCENARIO :: string where
  "SCENARIO = ''One run delegating twice: 'researcher' succeeds after a tool retry, 'auditor' fails.''"

text \<open>Lists and dictionaries are not hashable: using one as a key is a \<open>TypeError\<close>.\<close>

primrec hashable :: "json \<Rightarrow> bool" where
  "hashable JNull = True"
| "hashable (JBool _) = True"
| "hashable (JInt _) = True"
| "hashable (JFloat _) = True"
| "hashable (JStr _) = True"
| "hashable (JList _) = False"
| "hashable (JObj _) = False"

definition message_label :: "nat \<Rightarrow> json" where
  "message_label n = JStr (ustr ''message-'' @ decimal (int n + 1))"

definition name_for :: "json \<Rightarrow> (json \<times> json) list \<Rightarrow> string + json \<times> (json \<times> json) list" where
  "name_for value ids =
     (if \<not> hashable value then Inl ''TypeError''
      else let ids' = setdefault (canonical value) (message_label (length ids)) ids in
        Inr (the (map_of ids' (canonical value)), ids'))"

text \<open>Only the keys an event has are settled, in this order.\<close>

definition settled_keys :: "string list" where
  "settled_keys = [''messageId'', ''parentMessageId'', ''entityId'']"

fun settle_keys ::
    "string list \<Rightarrow> dict \<Rightarrow> (json \<times> json) list \<Rightarrow> string + dict \<times> (json \<times> json) list" where
  "settle_keys [] copy ids = Inr (copy, ids)"
| "settle_keys (key # keys) copy ids =
     (case fmlookup copy key of
        None \<Rightarrow> settle_keys keys copy ids
      | Some v \<Rightarrow> bind_result (name_for v ids) (\<lambda>(n, ids'). settle_keys keys (fmupd key n copy) ids'))"

definition freeze :: "dict \<Rightarrow> dict" where
  "freeze event =
     (if fmlookup event ''timestamp'' = None then event
      else fmupd ''timestamp'' (JInt FROZEN_TIMESTAMP) event)"

fun settle_events :: "dict list \<Rightarrow> (json \<times> json) list \<Rightarrow> string + dict list" where
  "settle_events [] ids = Inr []"
| "settle_events (event # events) ids =
     bind_result (settle_keys settled_keys (freeze event) ids) (\<lambda>(copy, ids').
       bind_result (settle_events events ids') (\<lambda>settled. Inr (copy # settled)))"

definition canonicalized :: "dict list \<Rightarrow> string + dict list" where
  "canonicalized events = settle_events events []"

text \<open>The document, and the command: its exit status and what it writes.\<close>

definition fixture_document :: "dict list \<Rightarrow> json" where
  "fixture_document events = json_obj
     [(''generator'', JStr (ustr ''scripts/generate_subagent_fixture.py'')),
      (''scenario'', JStr (ustr SCENARIO)),
      (''canonicalized'', JList (map (\<lambda>k. JStr (ustr k)) (''timestamp'' # settled_keys))),
      (''events'', JList (map JObj events))]"

definition generate :: "(json \<Rightarrow> ustr) \<Rightarrow> dict list \<Rightarrow> string + ustr" where
  "generate dumps emitted =
     bind_result (canonicalized emitted) (\<lambda>events. Inr (dumps (fixture_document events) @ [newline]))"

definition fixture_main ::
    "(json \<Rightarrow> ustr) \<Rightarrow> dict list \<Rightarrow> string list \<Rightarrow> string + nat \<times> (string \<times> ustr) option" where
  "fixture_main dumps emitted argv =
     (if length argv \<noteq> 2 then Inr (2, None)
      else bind_result (generate dumps emitted) (\<lambda>written. Inr (0, Some (argv ! 1, written))))"

section \<open>What a fixture still shows\<close>

text \<open>The ids of a recording as they come, and the recording with every id renamed.\<close>

definition ids_of :: "dict \<Rightarrow> json list" where
  "ids_of event = List.map_filter (fmlookup event) settled_keys"

definition recorded_ids :: "dict list \<Rightarrow> json list" where
  "recorded_ids events = concat (map ids_of events)"

definition relabel :: "string list \<Rightarrow> (json \<Rightarrow> json) \<Rightarrow> dict \<Rightarrow> dict" where
  "relabel keys f = fmmap_keys (\<lambda>k v. if k \<in> set keys then f v else v)"

text \<open>On the wire the ids are strings.\<close>

fun is_text :: "json \<Rightarrow> bool" where
  "is_text (JStr _) = True"
| "is_text _ = False"

definition wire_ids :: "dict list \<Rightarrow> bool" where
  "wire_ids events = list_all is_text (recorded_ids events)"

lemma is_text_key: "is_text v \<Longrightarrow> hashable v \<and> canonical v = v"
  by (cases v) simp_all

text \<open>The ids in the order first seen, and the name each gets there.\<close>

definition see :: "json \<Rightarrow> json list \<Rightarrow> json list" where
  "see v vs = (if v \<in> set vs then vs else vs @ [v])"

definition label_in :: "json list \<Rightarrow> json \<Rightarrow> json" where
  "label_in vs v = message_label (the (find_index ((=) v) vs))"

definition name_table :: "json list \<Rightarrow> (json \<times> json) list" where
  "name_table vs = map (\<lambda>i. (vs ! i, message_label i)) [0..<length vs]"

lemma message_label_inj: "message_label m = message_label n \<longleftrightarrow> m = n"
  by (auto simp: message_label_def decimal_def nat_add_distrib dest: digits_inj)

lemma set_see [simp]: "set (see v vs) = insert v (set vs)"
  by (auto simp: see_def)

lemma set_fold_see [simp]: "set (fold see ws vs) = set vs \<union> set ws"
  by (induction ws arbitrary: vs) auto

lemma name_table_Nil [simp]: "name_table [] = []"
  by (simp add: name_table_def)

lemma name_table_snoc: "name_table (vs @ [v]) = name_table vs @ [(v, message_label (length vs))]"
  by (auto simp: name_table_def nth_append)

lemma length_name_table [simp]: "length (name_table vs) = length vs"
  by (simp add: name_table_def)

lemma name_table_keys: "map fst (name_table vs) = vs"
  by (simp add: name_table_def map_nth comp_def)

lemma name_table_mem: "v \<in> fst ` set (name_table vs) \<longleftrightarrow> v \<in> set vs"
  by (metis name_table_keys set_map)

lemma find_index_append:
  "find_index p (xs @ ys) =
     (case find_index p xs of None \<Rightarrow> map_option ((+) (length xs)) (find_index p ys) | Some i \<Rightarrow> Some i)"
  by (induction xs; cases "find_index p ys") (auto split: option.split)

lemma map_of_name_table:
  "map_of (name_table vs) v = map_option message_label (find_index ((=) v) vs)"
proof (induction vs rule: rev_induct)
  case (snoc w vs)
  then show ?case
    by (cases "find_index ((=) v) vs") (auto simp: name_table_snoc find_index_append map_add_def)
qed simp

lemma label_see: "v \<in> set vs \<Longrightarrow> label_in (see w vs) v = label_in vs v"
  by (auto simp: label_in_def see_def find_index_append find_index_None split: option.split)

lemma label_fold_see: "v \<in> set vs \<Longrightarrow> label_in (fold see ws vs) v = label_in vs v"
  by (induction ws arbitrary: vs) (simp_all add: label_see)

lemma label_in_inj: "inj_on (label_in vs) (set vs)"
proof (rule inj_onI)
  fix v w
  assume mem: "v \<in> set vs" "w \<in> set vs" and same: "label_in vs v = label_in vs w"
  from mem obtain i j where "find_index ((=) v) vs = Some i" "find_index ((=) w) vs = Some j"
    by (metis find_index_None not_None_eq)
  with same show "v = w"
    using find_index_SomeD [of "(=) v" vs i] find_index_SomeD [of "(=) w" vs j]
    by (simp add: label_in_def message_label_inj)
qed

lemma name_for_text:
  assumes "is_text v"
  shows "name_for v (name_table vs) = Inr (label_in (see v vs) v, name_table (see v vs))"
proof (cases "v \<in> set vs")
  case True
  then obtain i where "find_index ((=) v) vs = Some i"
    by (metis find_index_None not_None_eq)
  with True show ?thesis
    using is_text_key [OF assms]
    by (simp add: name_for_def setdefault_def name_table_mem see_def label_in_def map_of_name_table)
next
  case False
  then have "find_index ((=) v) vs = None" by (auto simp: find_index_None)
  with False show ?thesis
    using is_text_key [OF assms]
    by (simp add: name_for_def setdefault_def name_table_mem see_def label_in_def name_table_snoc
        map_of_name_table find_index_append map_add_def flip: name_table_snoc)
qed

text \<open>A pass over the keys of one event, and over all the events.\<close>

lemma relabel_step:
  "fmlookup e k = Some v \<Longrightarrow> k \<notin> set ks \<Longrightarrow>
   relabel ks f (fmupd k (f v) e) = relabel (k # ks) f e"
  by (rule fmap_ext) (auto simp: relabel_def)

lemma relabel_absent: "fmlookup e k = None \<Longrightarrow> relabel (k # ks) f e = relabel ks f e"
proof (rule fmap_ext)
  fix x
  assume "fmlookup e k = None"
  then show "fmlookup (relabel (k # ks) f e) x = fmlookup (relabel ks f e) x"
    by (cases "x = k") (simp_all add: relabel_def)
qed

lemma settle_keys_names:
  assumes "distinct ks" and "list_all is_text (List.map_filter (fmlookup e) ks)"
    and "\<And>v. v \<in> set vs \<union> set (List.map_filter (fmlookup e) ks) \<Longrightarrow>
      f v = label_in (fold see (List.map_filter (fmlookup e) ks) vs) v"
  shows "settle_keys ks e (name_table vs) =
    Inr (relabel ks f e, name_table (fold see (List.map_filter (fmlookup e) ks) vs))"
  using assms
proof (induction ks arbitrary: e vs)
  case Nil
  have "relabel [] f e = e" by (rule fmap_ext) (simp add: relabel_def option.map_ident)
  then show ?case by (simp add: map_filter_simps)
next
  case (Cons k ks)
  show ?case
  proof (cases "fmlookup e k")
    case None
    with Cons show ?thesis by (simp add: map_filter_simps relabel_absent)
  next
    case (Some v)
    let ?rest = "List.map_filter (fmlookup e) ks"
    have same: "List.map_filter (fmlookup (fmupd k x e)) ks = ?rest" for x
      using Cons.prems(1) by (auto simp: List.map_filter_def intro!: map_cong filter_cong)
    have "f v = label_in (see v vs) v"
      using Cons.prems(3) [of v] Some label_fold_see [of v "see v vs" ?rest]
      by (simp add: map_filter_simps)
    moreover have "settle_keys ks (fmupd k (f v) e) (name_table (see v vs)) =
        Inr (relabel ks f (fmupd k (f v) e), name_table (fold see ?rest (see v vs)))"
      using Cons.IH [of "fmupd k (f v) e" "see v vs", unfolded same] Cons.prems Some
      by (simp add: map_filter_simps)
    ultimately show ?thesis
      using Cons.prems(1,2) Some relabel_step [OF Some, of ks f]
      by (simp add: map_filter_simps name_for_text)
  qed
qed

lemma settled_keys_distinct: "distinct settled_keys"
  by (simp add: settled_keys_def)

lemma ids_of_freeze [simp]: "ids_of (freeze e) = ids_of e"
  by (simp add: ids_of_def settled_keys_def freeze_def map_filter_simps split: option.split)

lemma settle_events_names:
  assumes "list_all is_text (recorded_ids es)"
    and "\<And>v. v \<in> set vs \<union> set (recorded_ids es) \<Longrightarrow> f v = label_in (fold see (recorded_ids es) vs) v"
  shows "settle_events es (name_table vs) = Inr (map (\<lambda>e. relabel settled_keys f (freeze e)) es)"
  using assms
proof (induction es arbitrary: vs)
  case (Cons e es)
  have split: "recorded_ids (e # es) = ids_of e @ recorded_ids es"
    by (simp add: recorded_ids_def)
  let ?seen = "fold see (ids_of e) vs"
  have here: "f v = label_in ?seen v" if "v \<in> set vs \<union> set (ids_of e)" for v
    using Cons.prems(2) [of v] that label_fold_see [of v ?seen "recorded_ids es"] by (auto simp: split)
  have "settle_keys settled_keys (freeze e) (name_table vs) =
      Inr (relabel settled_keys f (freeze e), name_table (fold see (ids_of (freeze e)) vs))"
    using Cons.prems(1) here settle_keys_names [of settled_keys "freeze e" vs f, folded ids_of_def]
    by (simp add: split settled_keys_distinct)
  moreover have "settle_events es (name_table ?seen) = Inr (map (\<lambda>e. relabel settled_keys f (freeze e)) es)"
    using Cons.prems by (intro Cons.IH) (auto simp: split)
  ultimately show ?case by simp
qed simp

definition fixture_names :: "dict list \<Rightarrow> json \<Rightarrow> json" where
  "fixture_names es = label_in (fold see (recorded_ids es) [])"

lemma canonicalized_wire:
  assumes "wire_ids es"
  shows "canonicalized es = Inr (map (\<lambda>e. relabel settled_keys (fixture_names es) (freeze e)) es)"
  using settle_events_names [of es "[]" "fixture_names es"] assms
  by (simp add: canonicalized_def wire_ids_def fixture_names_def)

lemma fixture_names_inj: "inj_on (fixture_names es) (set (recorded_ids es))"
  using label_in_inj [of "fold see (recorded_ids es) []"] by (simp add: fixture_names_def)

text \<open>Renaming, and what it does to the ids.\<close>

lemma ids_of_relabel: "ids_of (relabel settled_keys f e) = map f (ids_of e)"
  by (simp add: ids_of_def settled_keys_def relabel_def map_filter_simps split: option.split)

lemma relabel_relabel:
  "relabel settled_keys g (relabel settled_keys f e) = relabel settled_keys (\<lambda>v. g (f v)) e"
proof (rule fmap_ext)
  fix k
  show "fmlookup (relabel settled_keys g (relabel settled_keys f e)) k =
      fmlookup (relabel settled_keys (\<lambda>v. g (f v)) e) k"
    by (cases "fmlookup e k") (simp_all add: relabel_def)
qed

lemma settled_value: "k \<in> set settled_keys \<Longrightarrow> fmlookup e k = Some v \<Longrightarrow> v \<in> set (ids_of e)"
  by (auto simp: ids_of_def List.map_filter_def image_iff)

lemma relabel_cong:
  assumes "\<And>v. v \<in> set (ids_of e) \<Longrightarrow> f v = g v"
  shows "relabel settled_keys f e = relabel settled_keys g e"
proof (rule fmap_ext)
  fix k
  show "fmlookup (relabel settled_keys f e) k = fmlookup (relabel settled_keys g e) k"
    using assms settled_value [of k e] by (cases "fmlookup e k") (auto simp: relabel_def)
qed

lemma relabel_id: "relabel settled_keys (\<lambda>v. v) e = e"
  by (rule fmap_ext) (simp add: relabel_def option.map_ident)

definition renamed :: "(json \<Rightarrow> json) \<Rightarrow> dict list \<Rightarrow> dict list \<Rightarrow> bool" where
  "renamed f es es' \<longleftrightarrow> map freeze es' = map (\<lambda>e. relabel settled_keys f (freeze e)) es"

lemma recorded_ids_freeze: "recorded_ids (map freeze es) = recorded_ids es"
  by (simp add: recorded_ids_def comp_def)

lemma recorded_ids_relabel:
  "recorded_ids (map (\<lambda>e. relabel settled_keys f (freeze e)) es) = map f (recorded_ids es)"
  by (simp add: recorded_ids_def comp_def ids_of_relabel map_concat)

lemma renamed_ids: "renamed f es es' \<Longrightarrow> recorded_ids es' = map f (recorded_ids es)"
  by (metis renamed_def recorded_ids_freeze recorded_ids_relabel)

lemma fold_see_map:
  "inj_on f (set vs \<union> set ws) \<Longrightarrow> fold see (map f ws) (map f vs) = map f (fold see ws vs)"
proof (induction ws arbitrary: vs)
  case (Cons w ws)
  have "see (f w) (map f vs) = map f (see w vs)"
    using Cons.prems by (auto simp: see_def inj_on_def)
  with Cons show ?case by (simp add: insert_commute Un_insert_left)
qed simp

lemma find_index_map:
  "inj_on f (insert v (set vs)) \<Longrightarrow> find_index ((=) (f v)) (map f vs) = find_index ((=) v) vs"
  by (induction vs) (auto simp: inj_on_def)

lemma fixture_names_renamed:
  assumes "renamed f es es'" and "inj_on f (set (recorded_ids es))" and "v \<in> set (recorded_ids es)"
  shows "fixture_names es' (f v) = fixture_names es v"
proof -
  let ?vs = "fold see (recorded_ids es) []"
  have "fold see (recorded_ids es') [] = map f ?vs"
    using fold_see_map [of f "[]" "recorded_ids es"] assms(2) renamed_ids [OF assms(1)] by simp
  moreover have "find_index ((=) (f v)) (map f ?vs) = find_index ((=) v) ?vs"
    by (rule find_index_map) (use assms(2,3) in \<open>simp add: insert_absorb\<close>)
  ultimately show ?thesis by (simp add: fixture_names_def label_in_def)
qed

lemma ids_of_mem: "e \<in> set es \<Longrightarrow> v \<in> set (ids_of e) \<Longrightarrow> v \<in> set (recorded_ids es)"
  by (auto simp: recorded_ids_def)

lemma renamed_recording_gives_same_fixture:
  assumes "wire_ids es" and "wire_ids es'" and "renamed f es es'" and "inj_on f (set (recorded_ids es))"
  shows "canonicalized es = canonicalized es'"
proof -
  have "map (\<lambda>e. relabel settled_keys (fixture_names es') (freeze e)) es'
      = map (relabel settled_keys (fixture_names es')) (map freeze es')"
    by simp
  also have "\<dots> = map (\<lambda>e. relabel settled_keys (\<lambda>v. fixture_names es' (f v)) (freeze e)) es"
    using assms(3) by (simp add: renamed_def relabel_relabel)
  also have "\<dots> = map (\<lambda>e. relabel settled_keys (fixture_names es) (freeze e)) es"
    using fixture_names_renamed [OF assms(3,4)] by (auto intro!: relabel_cong dest: ids_of_mem)
  finally show ?thesis
    using assms(1,2) by (simp add: canonicalized_wire)
qed

lemma same_fixture_is_renamed_recording:
  assumes "wire_ids es" and "wire_ids es'" and "canonicalized es = canonicalized es'"
  shows "\<exists>f. renamed f es es' \<and> inj_on f (set (recorded_ids es))"
proof -
  let ?n = "fixture_names es" and ?n' = "fixture_names es'"
  let ?unname = "inv_into (set (recorded_ids es')) ?n'"
  have same: "map (\<lambda>e. relabel settled_keys ?n (freeze e)) es
      = map (\<lambda>e. relabel settled_keys ?n' (freeze e)) es'"
    using assms by (simp add: canonicalized_wire)
  then have "map ?n (recorded_ids es) = map ?n' (recorded_ids es')"
    by (metis recorded_ids_relabel)
  then have names: "?n ` set (recorded_ids es) = ?n' ` set (recorded_ids es')"
    by (metis set_map)
  have unnamed: "?unname (?n' v) = v" if "v \<in> set (recorded_ids es')" for v
    using fixture_names_inj that by (rule inv_into_f_f)
  have "map (\<lambda>e. relabel settled_keys (\<lambda>v. ?unname (?n v)) (freeze e)) es
      = map (relabel settled_keys ?unname) (map (\<lambda>e. relabel settled_keys ?n (freeze e)) es)"
    by (simp add: relabel_relabel)
  also have "\<dots> = map (\<lambda>e. relabel settled_keys (\<lambda>v. ?unname (?n' v)) (freeze e)) es'"
    by (simp add: same relabel_relabel)
  also have "\<dots> = map (\<lambda>e. relabel settled_keys (\<lambda>v. v) (freeze e)) es'"
    using unnamed by (auto intro!: relabel_cong dest: ids_of_mem)
  finally have "renamed (\<lambda>v. ?unname (?n v)) es es'"
    by (simp add: renamed_def relabel_id)
  moreover have "inj_on (\<lambda>v. ?unname (?n v)) (set (recorded_ids es))"
    using comp_inj_on [OF fixture_names_inj, of ?unname es] inj_on_inv_into [of _ ?n' "set (recorded_ids es')"]
    by (simp add: names comp_def)
  ultimately show ?thesis by blast
qed

text \<open>
  A fixture loses the accidental and nothing else. Two recordings whose ids are strings give
  the same settled events exactly when one is the other under a renaming of ids that keeps
  different ids different, up to the time stamps: so the file repeats from run to run whatever
  ids were drawn, and any other change of the wire changes it.
\<close>

theorem fixture_loses_only_names_and_times:
  assumes "wire_ids es" and "wire_ids es'"
  shows "canonicalized es = canonicalized es'
    \<longleftrightarrow> (\<exists>f. renamed f es es' \<and> inj_on f (set (recorded_ids es)))"
  using renamed_recording_gives_same_fixture [OF assms] same_fixture_is_renamed_recording [OF assms]
  by blast

definition one_text_event :: "string \<Rightarrow> int \<Rightarrow> dict" where
  "one_text_event i t = fmap_of_list [(''messageId'', JStr (ustr i)), (''timestamp'', JInt t)]"

theorem fixture_loses_only_names_and_times_witness:
  "canonicalized [one_text_event ''a'' 1, one_text_event ''b'' 2]
     = canonicalized [one_text_event ''b'' 3, one_text_event ''c'' 4]"
proof -
  let ?f = "\<lambda>v. if v = JStr (ustr ''a'') then JStr (ustr ''b'') else JStr (ustr ''c'')"
  let ?es = "[one_text_event ''a'' 1, one_text_event ''b'' 2]"
  let ?es' = "[one_text_event ''b'' 3, one_text_event ''c'' 4]"
  have ids: "recorded_ids [one_text_event i t, one_text_event j u] = [JStr (ustr i), JStr (ustr j)]" for i j t u
    by (simp add: recorded_ids_def ids_of_def settled_keys_def one_text_event_def map_filter_simps)
  have "relabel settled_keys ?f (freeze (one_text_event i t)) =
      fmap_of_list [(''messageId'', ?f (JStr (ustr i))), (''timestamp'', JInt FROZEN_TIMESTAMP)]" for i t
    by (rule fmap_ext) (auto simp: relabel_def freeze_def one_text_event_def settled_keys_def)
  moreover have "freeze (one_text_event i t) =
      fmap_of_list [(''messageId'', JStr (ustr i)), (''timestamp'', JInt FROZEN_TIMESTAMP)]" for i t
    by (rule fmap_ext) (auto simp: freeze_def one_text_event_def)
  ultimately have "renamed ?f ?es ?es'" by (simp add: renamed_def)
  moreover have "inj_on ?f (set (recorded_ids ?es))" by (simp add: ids)
  ultimately show ?thesis
    by (subst fixture_loses_only_names_and_times) (auto simp: wire_ids_def ids)
qed

section \<open>The frames of the stream\<close>

text \<open>\<open>str.splitlines\<close>: every line boundary Python knows, a carriage return taking its line feed.\<close>

definition line_boundary :: "nat \<Rightarrow> bool" where
  "line_boundary c \<longleftrightarrow> c \<in> {10, 11, 12, 13, 28, 29, 30, 133, 8232, 8233}"

fun lines_from :: "ustr \<Rightarrow> ustr \<Rightarrow> ustr list" where
  "lines_from line [] = (if line = [] then [] else [line])"
| "lines_from line (c # cs) =
     (if c = 13 \<and> cs \<noteq> [] \<and> hd cs = 10 then line # lines_from [] (tl cs)
      else if line_boundary c then line # lines_from [] cs
      else lines_from (line @ [c]) cs)"

definition splitlines :: "ustr \<Rightarrow> ustr list" where
  "splitlines text = lines_from [] text"

definition data_prefix :: ustr where
  "data_prefix = ustr ''data: ''"

text \<open>The chunks of the response as text, and the events the frames in them hold.\<close>

definition decode_stream :: "(ustr \<Rightarrow> 'e) \<Rightarrow> ustr list \<Rightarrow> 'e list" where
  "decode_stream loads chunks =
     map (\<lambda>line. loads (drop (length data_prefix) line))
       (filter (prefix data_prefix) (splitlines (concat chunks)))"

lemma lines_from_plain:
  "list_all (\<lambda>c. \<not> line_boundary c) xs \<Longrightarrow> lines_from line (xs @ 10 # rest) = (line @ xs) # lines_from [] rest"
  by (induction xs arbitrary: line) (auto simp: line_boundary_def)

definition frame :: "ustr \<Rightarrow> ustr" where
  "frame text = data_prefix @ text @ [newline, newline]"

lemma data_prefix_plain: "list_all (\<lambda>c. \<not> line_boundary c) data_prefix"
  by (simp add: data_prefix_def ustr_def line_boundary_def)

lemma splitlines_frame:
  "list_all (\<lambda>c. \<not> line_boundary c) text \<Longrightarrow>
   splitlines (frame text @ rest) = (data_prefix @ text) # [] # splitlines rest"
  using lines_from_plain [of "data_prefix @ text" "[]" "10 # rest"] lines_from_plain [of "[]" "[]" rest]
    data_prefix_plain
  by (simp add: splitlines_def frame_def)

text \<open>
  What was framed is decoded, however the transport cut the stream into chunks, as long as no
  body holds a line boundary.
\<close>

theorem frames_are_decoded:
  assumes "list_all (list_all (\<lambda>c. \<not> line_boundary c)) bodies" and "concat chunks = concat (map frame bodies)"
  shows "decode_stream loads chunks = map loads bodies"
proof -
  have "filter (prefix data_prefix) (splitlines (concat (map frame bodies))) = map ((@) data_prefix) bodies"
    using assms(1)
  proof (induction bodies)
    case Nil
    then show ?case by (simp add: splitlines_def)
  next
    case (Cons b bs)
    then show ?case by (simp add: splitlines_frame) (simp add: data_prefix_def)
  qed
  then show ?thesis by (simp add: decode_stream_def assms(2) comp_def)
qed

end
