(* ===== verification/DocsCheck.thy ===== *)
theory DocsCheck
  imports Prelude
begin

text \<open>
  \<open>scripts/check_docs_snippets.py\<close>, which checks the Python fences of the documentation against
  the installed packages. Parsing a snippet (\<open>ast.parse\<close> of \<open>textwrap.dedent\<close>) and what the
  interpreter knows of the installed packages are parameters. A tree is the list of its nodes as
  \<open>ast.walk\<close> gives them, and the text of a problem is reduced to what it names.
\<close>

section \<open>The fences\<close>

text \<open>The first occurrence of a delimiter, as a non-greedy match finds it.\<close>

fun split_first :: "ustr \<Rightarrow> ustr \<Rightarrow> (ustr \<times> ustr) option" where
  "split_first delim [] = None"
| "split_first delim (c # cs) =
     (if prefix delim (c # cs) then Some ([], drop (length delim) (c # cs))
      else map_option (\<lambda>(before, rest). (c # before, rest)) (split_first delim cs))"

lemma split_first_length: "split_first delim t = Some (code, rest) \<Longrightarrow> length rest \<le> length t"
proof (induction t arbitrary: code)
  case (Cons c cs)
  then show ?case by (fastforce split: if_splits)
qed simp

definition fence_open :: ustr where
  "fence_open = ustr ''```python''"

definition fence_close :: ustr where
  "fence_close = ustr ''```''"

text \<open>\<open>FENCE\<close> at one place: the opening, whatever follows it on its line, the code.\<close>

definition fence_here :: "ustr \<Rightarrow> (ustr \<times> ustr) option" where
  "fence_here text =
     (if prefix fence_open text then
        (case dropWhile (\<lambda>c. c \<noteq> newline) (drop (length fence_open) text) of
           [] \<Rightarrow> None
         | _ # code \<Rightarrow> split_first fence_close code)
      else None)"

lemma fence_here_length: "fence_here text = Some (code, rest) \<Longrightarrow> length rest < length text"
proof -
  assume a: "fence_here text = Some (code, rest)"
  then obtain c cs where c: "dropWhile (\<lambda>c. c \<noteq> newline) (drop (length fence_open) text) = c # cs"
      "split_first fence_close cs = Some (code, rest)"
    by (auto simp: fence_here_def split: if_splits list.splits)
  have "length (c # cs) \<le> length text"
    using length_dropWhile_le [of "\<lambda>c. c \<noteq> newline" "drop (length fence_open) text"] by (simp add: c(1))
  with split_first_length [OF c(2)] show ?thesis by simp
qed

text \<open>\<open>FENCE.finditer\<close>: the matches from left to right, each search starting after the last.\<close>

function fences_in :: "ustr \<Rightarrow> ustr list" where
  "fences_in [] = []"
| "fences_in (c # cs) =
     (case fence_here (c # cs) of
        Some (code, rest) \<Rightarrow> code # fences_in rest
      | None \<Rightarrow> fences_in cs)"
  by pat_completeness auto
termination
  by (relation "measure length") (auto dest: fence_here_length)

declare fences_in.simps(2) [simp del]

text \<open>The pages in order, the readme last; each fence with its page and its number there.\<close>

definition iter_fences :: "('p::linorder \<times> ustr) list \<Rightarrow> ('p \<times> ustr) option \<Rightarrow> ('p \<times> nat \<times> ustr) list" where
  "iter_fences docs readme =
     concat (map (\<lambda>(path, text). map (\<lambda>(i, code). (path, i, code)) (List.enumerate 1 (fences_in text)))
       (sort_key fst docs @ (case readme of None \<Rightarrow> [] | Some r \<Rightarrow> [r])))"

section \<open>What a snippet is checked against\<close>

datatype parameter_kind = PositionalOnly | PositionalOrKeyword | VarPositional | KeywordOnly | VarKeyword

type_synonym signature = "(string \<times> parameter_kind) list"

text \<open>
  What the interpreter answers: whether a root package is installed (\<open>None\<close> where looking it up
  raises), the attributes of a module (\<open>None\<close> where importing it raises), and the signature of an
  object that is a class or a function and has one.
\<close>

record 'o packages =
  find_spec :: "string \<Rightarrow> bool option"
  import_module :: "string \<Rightarrow> (string \<rightharpoonup> 'o) option"
  signature_of :: "'o \<Rightarrow> signature option"

text \<open>
  A \<open>from\<close> import: its module, its level and its names, each with its alias. A call of a name:
  which positional arguments are starred, and the keywords (\<open>None\<close> for a double star).
\<close>

datatype node =
    ImportFrom "string option" nat "(string \<times> string option) list"
  | CallName string "bool list" "string option list"
  | OtherNode

datatype problem =
    DoesNotParse
  | CannotImport string
  | HasNo string string
  | DoesNotMatch string

definition is_readers_own_code :: "'o packages \<Rightarrow> string \<Rightarrow> bool" where
  "is_readers_own_code w src \<longleftrightarrow>
     find_spec w (takeWhile (\<lambda>c. c \<noteq> CHR ''.'') src) = Some False"

fun import_names ::
    "string \<Rightarrow> (string \<rightharpoonup> 'o) \<Rightarrow> (string \<times> string option) list \<Rightarrow>
     (string \<rightharpoonup> 'o) \<times> problem list \<Rightarrow> (string \<rightharpoonup> 'o) \<times> problem list" where
  "import_names src attrs [] st = st"
| "import_names src attrs ((name, asname) # rest) (resolved, problems) =
     import_names src attrs rest
       (case attrs name of
          None \<Rightarrow> (resolved, problems @ [HasNo src name])
        | Some obj \<Rightarrow> (resolved((case asname of None \<Rightarrow> name | Some a \<Rightarrow> a) \<mapsto> obj), problems))"

fun resolve_imports ::
    "'o packages \<Rightarrow> node list \<Rightarrow> (string \<rightharpoonup> 'o) \<times> problem list \<Rightarrow> (string \<rightharpoonup> 'o) \<times> problem list" where
  "resolve_imports w [] st = st"
| "resolve_imports w (ImportFrom (Some src) level names # tree) (resolved, problems) =
     (if level \<noteq> 0 \<or> is_readers_own_code w src then resolve_imports w tree (resolved, problems)
      else case import_module w src of
        None \<Rightarrow> resolve_imports w tree (resolved, problems @ [CannotImport src])
      | Some attrs \<Rightarrow> resolve_imports w tree (import_names src attrs names (resolved, problems)))"
| "resolve_imports w (_ # tree) st = resolve_imports w tree st"

text \<open>
  \<open>Signature.bind_partial\<close>: enough places for the positional arguments, no keyword for a place
  already filled, and a parameter for every keyword. Positional parameters come first.
\<close>

definition bind_partial :: "signature \<Rightarrow> nat \<Rightarrow> string list \<Rightarrow> bool" where
  "bind_partial ps n keywords \<longleftrightarrow>
     (let places = filter (\<lambda>p. snd p = PositionalOnly \<or> snd p = PositionalOrKeyword) ps;
          kinds = map snd ps;
          filled = map fst (filter (\<lambda>p. snd p = PositionalOrKeyword) (take n places));
          named = map fst (filter (\<lambda>p. snd p = PositionalOrKeyword \<or> snd p = KeywordOnly) ps)
      in (n \<le> length places \<or> VarPositional \<in> set kinds)
       \<and> list_all (\<lambda>k. k \<notin> set filled \<and> (k \<in> set named \<or> VarKeyword \<in> set kinds)) keywords)"

definition bind_problems :: "string \<Rightarrow> bool list \<Rightarrow> string option list \<Rightarrow> signature \<Rightarrow> problem list" where
  "bind_problems name args keywords ps =
     (if True \<in> set args \<or> None \<in> set keywords then []
      else if bind_partial ps (length args) (map the keywords) then []
      else [DoesNotMatch name])"

fun check_calls :: "'o packages \<Rightarrow> node list \<Rightarrow> (string \<rightharpoonup> 'o) \<Rightarrow> problem list" where
  "check_calls w [] resolved = []"
| "check_calls w (CallName name args keywords # tree) resolved =
     (case resolved name of
        None \<Rightarrow> []
      | Some target \<Rightarrow>
          (case signature_of w target of None \<Rightarrow> [] | Some ps \<Rightarrow> bind_problems name args keywords ps))
     @ check_calls w tree resolved"
| "check_calls w (_ # tree) resolved = check_calls w tree resolved"

definition check_tree :: "'o packages \<Rightarrow> node list \<Rightarrow> problem list" where
  "check_tree w tree =
     (case resolve_imports w tree (Map.empty, []) of
        (resolved, problems) \<Rightarrow> problems @ check_calls w tree resolved)"

definition fence_problems :: "'o packages \<Rightarrow> (ustr \<Rightarrow> node list option) \<Rightarrow> ustr \<Rightarrow> problem list" where
  "fence_problems w parse code =
     (case parse code of None \<Rightarrow> [DoesNotParse] | Some tree \<Rightarrow> check_tree w tree)"

text \<open>The command: its exit status, the failures with their place, and how many it checked.\<close>

definition check_docs ::
    "'o packages \<Rightarrow> (ustr \<Rightarrow> node list option) \<Rightarrow> ('p::linorder \<times> ustr) list \<Rightarrow> ('p \<times> ustr) option \<Rightarrow>
     nat \<times> ('p \<times> nat \<times> problem) list \<times> nat" where
  "check_docs w parse docs readme =
     (let fences = iter_fences docs readme;
          failures = concat (map (\<lambda>(path, i, code).
            map (\<lambda>why. (path, i, why)) (fence_problems w parse code)) fences);
          checked = length (filter (\<lambda>(path, i, code). parse code \<noteq> None) fences)
      in (if failures \<noteq> [] then 1 else 0, failures, checked))"

section \<open>What a clean run means\<close>

lemma split_first_here:
  "mark \<notin> set code \<Longrightarrow> split_first (mark # marks) (code @ mark # marks @ rest) = Some (code, rest)"
  by (induction code) auto

text \<open>A titled fence after prose is found, whatever its title, and the search goes on after it.\<close>

lemma fences_in_prose: "96 \<notin> set prose \<Longrightarrow> fences_in (prose @ text) = fences_in text"
  by (induction prose) (auto simp: fences_in.simps fence_here_def fence_open_def ustr_def)

theorem titled_fences_are_found:
  assumes "96 \<notin> set prose" and "newline \<notin> set title" and "96 \<notin> set code"
  shows "fences_in (prose @ fence_open @ title @ newline # code @ fence_close @ rest) = code # fences_in rest"
proof -
  have "dropWhile (\<lambda>c. c \<noteq> newline) (title @ newline # code @ fence_close @ rest) = newline # code @ fence_close @ rest"
    using assms(2) by (induction title) auto
  moreover have "split_first fence_close (code @ fence_close @ rest) = Some (code, rest)"
    using split_first_here [OF assms(3), of "[96, 96]" rest] by (simp add: fence_close_def ustr_def)
  ultimately have "fence_here (fence_open @ title @ newline # code @ fence_close @ rest) = Some (code, rest)"
    by (simp add: fence_here_def)
  then show ?thesis
    using fences_in_prose [OF assms(1)] by (simp add: fences_in.simps fence_open_def ustr_def)
qed

text \<open>The problems of the imports alone, node by node.\<close>

fun import_problems :: "'o packages \<Rightarrow> node \<Rightarrow> problem list" where
  "import_problems w (ImportFrom (Some src) level names) =
     (if level \<noteq> 0 \<or> is_readers_own_code w src then []
      else case import_module w src of
        None \<Rightarrow> [CannotImport src]
      | Some attrs \<Rightarrow> map (HasNo src) (filter (\<lambda>n. attrs n = None) (map fst names)))"
| "import_problems w _ = []"

lemma import_names_problems:
  "snd (import_names src attrs names (resolved, problems)) =
     problems @ map (HasNo src) (filter (\<lambda>n. attrs n = None) (map fst names))"
  by (induction names arbitrary: resolved problems) (auto split: option.split)

lemma resolve_imports_problems:
  "snd (resolve_imports w tree (resolved, problems)) = problems @ concat (map (import_problems w) tree)"
proof (induction w tree "(resolved, problems)" arbitrary: resolved problems rule: resolve_imports.induct)
  case (2 w src level names tree resolved problems)
  show ?case
  proof (cases "import_module w src")
    case (Some attrs)
    obtain r p where "import_names src attrs names (resolved, problems) = (r, p)" by force
    with 2 Some import_names_problems [of src attrs names resolved problems] show ?thesis by simp
  qed (use 2 in simp)
qed simp_all

text \<open>
  A dependency that moved is never swallowed: in a fence that parses, an import of an installed
  root whose module cannot be imported, or no longer has the name, fails the run and is among
  the failures under that fence.
\<close>

theorem moved_dependency_fails_the_check:
  assumes "(path, i, code) \<in> set (iter_fences docs readme)" and "parse code = Some tree"
    and "ImportFrom (Some src) 0 names \<in> set tree" and "\<not> is_readers_own_code w src"
    and "case import_module w src of
           None \<Rightarrow> why = CannotImport src
         | Some attrs \<Rightarrow> name \<in> fst ` set names \<and> attrs name = None \<and> why = HasNo src name"
  shows "(path, i, why) \<in> set (fst (snd (check_docs w parse docs readme)))
    \<and> fst (check_docs w parse docs readme) = 1"
proof -
  have "why \<in> set (import_problems w (ImportFrom (Some src) 0 names))"
    using assms(4,5) by (auto split: option.splits)
  then have "why \<in> set (snd (resolve_imports w tree (Map.empty, [])))"
    using assms(3) by (simp add: resolve_imports_problems del: import_problems.simps) blast
  then have "why \<in> set (check_tree w tree)"
    by (simp add: check_tree_def split_beta)
  then have "why \<in> set (fence_problems w parse code)"
    using assms(2) by (simp add: fence_problems_def)
  then have "(path, i, why) \<in> set (fst (snd (check_docs w parse docs readme)))"
    using assms(1) by (auto simp: check_docs_def Let_def intro!: bexI [of _ "(path, i, code)"])
  moreover have "fst (check_docs w parse docs readme) =
      (if fst (snd (check_docs w parse docs readme)) \<noteq> [] then 1 else 0)"
    by (simp add: check_docs_def Let_def)
  ultimately show ?thesis by auto
qed

text \<open>
  A clean run: every fence parses, every name imported from an installed package is there, and
  every call of an imported class or function whose arguments can be counted binds.
\<close>

definition calls_fit :: "'o packages \<Rightarrow> (string \<rightharpoonup> 'o) \<Rightarrow> node \<Rightarrow> bool" where
  "calls_fit w resolved n =
     (case n of
        CallName name args keywords \<Rightarrow>
          (case Option.bind (resolved name) (signature_of w) of
             None \<Rightarrow> True
           | Some ps \<Rightarrow> True \<in> set args \<or> None \<in> set keywords
               \<or> bind_partial ps (length args) (map the keywords))
      | _ \<Rightarrow> True)"

lemma check_calls_clean: "check_calls w tree resolved = [] \<longleftrightarrow> list_all (calls_fit w resolved) tree"
  by (induction w tree resolved rule: check_calls.induct)
    (auto simp: calls_fit_def bind_problems_def split: option.splits)

definition sound_tree :: "'o packages \<Rightarrow> node list \<Rightarrow> bool" where
  "sound_tree w tree \<longleftrightarrow>
     list_all (\<lambda>n. import_problems w n = []) tree
     \<and> list_all (calls_fit w (fst (resolve_imports w tree (Map.empty, [])))) tree"

lemma check_tree_clean: "check_tree w tree = [] \<longleftrightarrow> sound_tree w tree"
  using resolve_imports_problems [of w tree Map.empty "[]"]
  by (auto simp: check_tree_def sound_tree_def check_calls_clean list_all_iff split: prod.split)

lemma fence_problems_clean:
  "fence_problems w parse code = [] \<longleftrightarrow> (\<exists>tree. parse code = Some tree \<and> sound_tree w tree)"
  by (simp add: fence_problems_def check_tree_clean split: option.split)

theorem clean_exactly_when_sound:
  "fst (check_docs w parse docs readme) = 0
     \<longleftrightarrow> list_all (\<lambda>(path, i, code). \<exists>tree. parse code = Some tree \<and> sound_tree w tree) (iter_fences docs readme)"
proof -
  have "fst (check_docs w parse docs readme) = 0
      \<longleftrightarrow> (\<forall>(path, i, code) \<in> set (iter_fences docs readme). fence_problems w parse code = [])"
    by (auto simp: check_docs_def Let_def)
  then show ?thesis by (simp add: fence_problems_clean list_all_iff)
qed

end
