(* ===== verification/Mount.thy ===== *)
theory Mount
  imports Server
begin

text \<open>
  How the views of a mount are built: the constructors of \<open>agent/agui_view.py\<close>,
  \<open>agent/tools_view.py\<close>, \<open>agent/runs_view.py\<close>, \<open>skills/skills_view.py\<close> and the three endpoints of
  \<open>persistence/\<close>, the one request policy \<open>AGUIServer\<close> hands to each of them, and the CSRF flag
  and the warnings that come of it. \<open>aauthorize\<close> belongs to the substrate and Django's CSRF
  middleware to Django; both are parameters.
\<close>

section \<open>The policy and the views\<close>

record ('u, 'z) request_policy =
  pl_require_authenticated :: bool
  pl_get_user :: "'u option"
  pl_authorize :: "'z option"
  pl_csrf_exempt :: "bool option"

text \<open>What a view keeps of it: the three arguments of \<open>aauthorize\<close>, and the flag Django reads.\<close>

record ('u, 'z, 'c) built_view =
  bv_view :: view
  bv_auth :: "bool \<times> 'u option \<times> 'z option"
  bv_csrf_exempt :: bool
  bv_config :: "'c option"

definition auth_of :: "('u, 'z) request_policy \<Rightarrow> bool \<times> 'u option \<times> 'z option" where
  "auth_of p = (pl_require_authenticated p, pl_get_user p, pl_authorize p)"

definition standing :: "view \<Rightarrow> ('u, 'z) request_policy \<Rightarrow> 'c option \<Rightarrow> ('u, 'z, 'c) built_view" where
  "standing v p config =
     \<lparr>bv_view = v, bv_auth = auth_of p, bv_csrf_exempt = resolve_csrf_exempt (pl_csrf_exempt p),
      bv_config = config\<rparr>"

text \<open>
  A construction is the number of warnings it gave and its outcome. \<open>defaults\<close> is what
  \<open>build_ag_ui_config()\<close> makes of the settings, for a view that was handed no configuration.
\<close>

type_synonym 'b construction = "nat \<times> (refusal + 'b)"

definition csrf_warning :: "('u, 'z) request_policy \<Rightarrow> nat" where
  "csrf_warning p = (if warns_csrf_unstated (pl_csrf_exempt p) (pl_get_user p) then 1 else 0)"

definition settled_config :: "string + 'c \<Rightarrow> 'c option \<Rightarrow> refusal + 'c" where
  "settled_config defaults given =
     (case given of Some c \<Rightarrow> Inr c | None \<Rightarrow> refused BadSettings defaults)"

definition new_tools_view :: "('u, 'z) request_policy \<Rightarrow> ('u, 'z, 'c) built_view construction" where
  "new_tools_view p = (0, Inr (standing ToolsView p None))"

definition new_skills_view :: "('u, 'z) request_policy \<Rightarrow> ('u, 'z, 'c) built_view construction" where
  "new_skills_view p = (0, Inr (standing SkillsView p None))"

definition new_runs_view ::
    "string + 'c \<Rightarrow> 'c option \<Rightarrow> ('u, 'z) request_policy \<Rightarrow> ('u, 'z, 'c) built_view construction" where
  "new_runs_view defaults given p =
     (0, bind_result (settled_config defaults given) (\<lambda>c. Inr (standing RunsView p (Some c))))"

definition new_threads_view ::
    "string + 'c \<Rightarrow> 'c option \<Rightarrow> ('u, 'z) request_policy \<Rightarrow> ('u, 'z, 'c) built_view construction" where
  "new_threads_view defaults given p =
     (case settled_config defaults given of
        Inl why \<Rightarrow> (0, Inl why)
      | Inr c \<Rightarrow> (csrf_warning p, Inr (standing ThreadsView p (Some c))))"

definition new_attachments_view ::
    "string + 'c \<Rightarrow> 'c option \<Rightarrow> ('u, 'z) request_policy \<Rightarrow> ('u, 'z, 'c) built_view construction" where
  "new_attachments_view defaults given p =
     (case settled_config defaults given of
        Inl why \<Rightarrow> (0, Inl why)
      | Inr c \<Rightarrow> (csrf_warning p, Inr (standing AttachmentsView p (Some c))))"

definition new_transcribe_view ::
    "string + 'c \<Rightarrow> 'c option \<Rightarrow> bool option \<Rightarrow> ('u, 'z) request_policy \<Rightarrow>
     ('u, 'z, 'c) built_view construction" where
  "new_transcribe_view defaults given throttle p =
     (case bind_result (settled_config defaults given) (\<lambda>c.
        bind_result (refused AsyncThrottle (reject_async_throttle throttle ''clip'')) (\<lambda>_. Inr c)) of
        Inl why \<Rightarrow> (0, Inl why)
      | Inr c \<Rightarrow> (csrf_warning p, Inr (standing TranscribeView p (Some c))))"

text \<open>The run view: its limiter is checked before its configuration, the model after it.\<close>

definition new_agui_view ::
    "('m, 'p) model_builder \<Rightarrow> string + ('m, 'i) ag_ui_config \<Rightarrow> ('m, 'i) ag_ui_config option \<Rightarrow>
     bool option \<Rightarrow> ('u, 'z) request_policy \<Rightarrow> ('m, 'i, 'p, 'a, 'o) view_args \<Rightarrow>
     (('u, 'z, ('m, 'i) ag_ui_config) built_view \<times> ('m, 'i, 'p, 'a, 'o) view_args) construction" where
  "new_agui_view build_model defaults given throttle p va =
     (case bind_result (refused AsyncThrottle (reject_async_throttle throttle ''run'')) (\<lambda>_.
             bind_result (settled_config defaults given) (\<lambda>c.
             bind_result (refused NoModel (require_a_model build_model (va\<lparr>va_config := c\<rparr>))) (\<lambda>_. Inr c))) of
        Inl why \<Rightarrow> (0, Inl why)
      | Inr c \<Rightarrow> (csrf_warning p, Inr (standing RunView p (Some c), va\<lparr>va_config := c\<rparr>)))"

section \<open>The server object\<close>

text \<open>
  The arguments beside those of \<open>server_args\<close>: the policy, which backends are configured and not
  null, the limiter of \<open>transcribe/\<close> and the namespace.
\<close>

definition DEFAULT_NAMESPACE :: string where
  "DEFAULT_NAMESPACE = ''ag_ui''"

record ('u, 'z) mount_args =
  ma_policy :: "('u, 'z) request_policy"
  ma_skills :: bool
  ma_threads :: bool
  ma_transcription :: bool
  ma_transcribe_throttle :: "bool option"
  ma_namespace :: string

record ('u, 'z, 'c) server_object =
  sv_args :: "('u, 'z) mount_args"
  sv_steps :: bool
  sv_attachments :: bool
  sv_config :: 'c
  sv_run_view :: "('u, 'z, 'c) built_view"

text \<open>
  The constructor whole: the checks of \<open>new_server\<close> in their order, then the run view, built
  from the checked configuration. The run view warns; nothing before it does.
\<close>

definition construct ::
    "conversions \<Rightarrow> ('m \<Rightarrow> ustr) \<Rightarrow> ('m, 'p) model_builder \<Rightarrow> ('sp \<Rightarrow> bool option) \<Rightarrow>
     ('m, 'i, 'p, 'a, 'o, 'sp) server_args \<Rightarrow> ('u, 'z) mount_args \<Rightarrow>
     (('u, 'z, ('m, 'i) ag_ui_config) server_object \<times> ('m, 'i, 'p, 'a, 'o) view_args) construction" where
  "construct cv obj_text build_model kernel_spec sa ma =
     (let defaults = build_ag_ui_config cv obj_text (sa_settings sa) no_overrides in
      case bind_result (refused RemovedSettings (check_removed_settings (sa_settings sa))) (\<lambda>_.
           bind_result (refused DottedPaths (check_no_dotted_paths (sa_named sa))) (\<lambda>_.
           bind_result (settled_config defaults (sa_config sa)) (\<lambda>config.
           bind_result (check_specs kernel_spec sa) (\<lambda>_.
             Inr (with_registry_prompts config (sa_registry sa)))))) of
        Inl why \<Rightarrow> (0, Inl why)
      | Inr config \<Rightarrow>
          (case new_agui_view build_model defaults (Some config) (sa_throttle_is_async sa) (ma_policy ma)
                  ((sa_view sa)\<lparr>va_tools := server_tools sa\<rparr>) of
             (n, Inl why) \<Rightarrow> (n, Inl why)
           | (n, Inr (bv, va)) \<Rightarrow>
               (n, Inr (\<lparr>sv_args = ma, sv_steps = va_has_steps va, sv_attachments = sa_attachments sa,
                         sv_config = config, sv_run_view = bv\<rparr>, va))))"

text \<open>\<open>construct\<close> accepts and refuses as \<open>new_server\<close> does, with the same run view.\<close>

lemma construct_refuses_as_new_server:
  "map_sum id snd (snd (construct cv obj_text build_model kernel_spec sa ma)) =
     new_server cv obj_text build_model kernel_spec sa"
proof -
  let ?settings = "refused RemovedSettings (check_removed_settings (sa_settings sa))"
  let ?paths = "refused DottedPaths (check_no_dotted_paths (sa_named sa))"
  let ?config = "settled_config (build_ag_ui_config cv obj_text (sa_settings sa) no_overrides) (sa_config sa)"
  have config: "refused BadSettings (case sa_config sa of Some c \<Rightarrow> Inr c
      | None \<Rightarrow> build_ag_ui_config cv obj_text (sa_settings sa) no_overrides) = ?config"
    by (simp add: settled_config_def refused_def split: option.split)
  show ?thesis
    unfolding construct_def new_server_def config Let_def
    by (cases ?settings; cases ?paths; cases ?config; cases "check_specs kernel_spec sa";
        cases "refused AsyncThrottle (reject_async_throttle (sa_throttle_is_async sa) ''run'')")
      (auto simp: new_agui_view_def settled_config_def bind_result_Inr bind_result_Inl split: sum.split)
qed

section \<open>The URLs\<close>

text \<open>The views are built in the order of the patterns; one that refuses ends the list.\<close>

fun build_views ::
    "(route list \<times> 'b construction) list \<Rightarrow> (route \<times> 'b) list construction" where
  "build_views [] = (0, Inr [])"
| "build_views ((routes, (n, Inl why)) # rest) = (n, Inl why)"
| "build_views ((routes, (n, Inr v)) # rest) =
     (case build_views rest of
        (m, built) \<Rightarrow> (n + m, bind_result built (\<lambda>ps. Inr (map (\<lambda>r. (r, v)) routes @ ps))))"

definition literal_route :: "view \<Rightarrow> string \<Rightarrow> string \<Rightarrow> route" where
  "literal_route v path name = \<lparr>rt_prefix = path, rt_param = False, rt_view = v, rt_name = name\<rparr>"

definition captured_route :: "view \<Rightarrow> string \<Rightarrow> string \<Rightarrow> route" where
  "captured_route v path name = \<lparr>rt_prefix = path, rt_param = True, rt_view = v, rt_name = name\<rparr>"

definition url_patterns ::
    "string + 'c \<Rightarrow> ('u, 'z, 'c) server_object \<Rightarrow> (route \<times> ('u, 'z, 'c) built_view) list construction" where
  "url_patterns defaults sv =
     (let ma = sv_args sv; p = ma_policy ma; config = Some (sv_config sv) in
      build_views
        ([([literal_route RunView [] ''endpoint''], (0, Inr (sv_run_view sv))),
          ([literal_route ToolsView ''tools/'' ''tools''], new_tools_view p)]
         @ (if \<not> sv_steps sv then [] else
             [([captured_route RunView ''resume/'' ''resume'', captured_route RunView ''fork/'' ''fork''],
                (0, Inr (sv_run_view sv))),
              ([literal_route RunsView ''runs/'' ''runs''], new_runs_view defaults config p)])
         @ (if \<not> ma_skills ma then [] else
             [([literal_route SkillsView ''skills/'' ''skills''], new_skills_view p)])
         @ (if \<not> ma_threads ma then [] else
             [([literal_route ThreadsView ''threads/'' ''threads'', captured_route ThreadsView ''threads/'' ''thread''],
                new_threads_view defaults config p)])
         @ (if \<not> sv_attachments sv then [] else
             [([literal_route AttachmentsView ''attachments/'' ''attachments'',
                captured_route AttachmentsView ''attachments/'' ''attachment''],
                new_attachments_view defaults config p)])
         @ (if \<not> ma_transcription ma then [] else
             [([literal_route TranscribeView ''transcribe/'' ''transcribe''],
                new_transcribe_view defaults config (ma_transcribe_throttle ma) p)])))"

text \<open>\<open>urls\<close>: what \<open>path()\<close> mounts, the application and the instance namespace the same.\<close>

definition urls ::
    "string + 'c \<Rightarrow> ('u, 'z, 'c) server_object \<Rightarrow>
     ((route \<times> ('u, 'z, 'c) built_view) list \<times> string \<times> string) construction" where
  "urls defaults sv =
     (case url_patterns defaults sv of
        (n, ps) \<Rightarrow> (n, bind_result ps (\<lambda>patterns.
          Inr (patterns, ma_namespace (sv_args sv), ma_namespace (sv_args sv)))))"

text \<open>The views that warn of an unstated CSRF stance when they are built.\<close>

definition warning_views :: "('u, 'z, 'c) server_object \<Rightarrow> nat" where
  "warning_views sv =
     (if ma_threads (sv_args sv) then 1 else 0) + (if sv_attachments sv then 1 else 0)
     + (if ma_transcription (sv_args sv) then 1 else 0)"

text \<open>What a site of \<open>Server\<close> and a server object agree on: which backends there are.\<close>

definition backs :: "('h, 's, 't) site \<Rightarrow> ('u, 'z, 'c) server_object \<Rightarrow> bool" where
  "backs st sv \<longleftrightarrow>
     (st_steps st \<noteq> None) = sv_steps sv \<and> (st_skills st \<noteq> None) = ma_skills (sv_args sv)
     \<and> (st_threads st \<noteq> None) = ma_threads (sv_args sv)
     \<and> (st_attachments st \<noteq> None) = sv_attachments sv
     \<and> (st_transcribe st \<noteq> None) = ma_transcription (sv_args sv)"

definition built_for :: "('u, 'z) request_policy \<Rightarrow> route \<times> ('u, 'z, 'c) built_view \<Rightarrow> bool" where
  "built_for p = (\<lambda>(r, bv). bv_view bv = rt_view r \<and> bv_auth bv = auth_of p
     \<and> bv_csrf_exempt bv = resolve_csrf_exempt (pl_csrf_exempt p))"

lemmas view_constructors = new_tools_view_def new_skills_view_def new_runs_view_def new_threads_view_def
  new_attachments_view_def new_transcribe_view_def settled_config_def

lemma build_views_append:
  "build_views (xs @ ys) =
     (case build_views xs of
        (n, Inl why) \<Rightarrow> (n, Inl why)
      | (n, Inr ps) \<Rightarrow> (case build_views ys of (m, built) \<Rightarrow> (n + m, bind_result built (\<lambda>qs. Inr (ps @ qs)))))"
proof (induction xs rule: build_views.induct)
  case (3 routes n v rest)
  then show ?case
    by (cases "build_views rest"; cases "snd (build_views rest)"; cases "build_views ys"; cases "snd (build_views ys)")
      (auto split: prod.splits sum.splits)
qed (auto split: prod.splits)

lemma urls_refused_iff:
  "(\<exists>why. snd (url_patterns defaults sv) = Inl why)
     \<longleftrightarrow> ma_transcription (sv_args sv) \<and> ma_transcribe_throttle (sv_args sv) = Some True"
  by (cases "ma_transcribe_throttle (sv_args sv)")
    (auto simp: url_patterns_def Let_def view_constructors refused_def split: prod.splits)

lemma built_for_standing:
  "built_for p (r, standing v q config) \<longleftrightarrow>
     v = rt_view r \<and> auth_of q = auth_of p \<and>
     resolve_csrf_exempt (pl_csrf_exempt q) = resolve_csrf_exempt (pl_csrf_exempt p)"
  by (simp add: built_for_def standing_def)

lemma urls_built:
  assumes "url_patterns defaults sv = (n, Inr ps)"
    and "sv_run_view sv = standing RunView (ma_policy (sv_args sv)) (Some (sv_config sv))"
  shows "n = csrf_warning (ma_policy (sv_args sv)) * warning_views sv"
    and "list_all (built_for (ma_policy (sv_args sv))) ps"
    and "backs st sv \<Longrightarrow> map fst ps = build_patterns st"
proof -
  obtain outcome where t: "refused AsyncThrottle (reject_async_throttle (ma_transcribe_throttle (sv_args sv)) ''clip'') = outcome"
    by blast
  note shape = url_patterns_def Let_def view_constructors literal_route_def captured_route_def
    warning_views_def built_for_standing t
  have "n = csrf_warning (ma_policy (sv_args sv)) * warning_views sv
      \<and> list_all (built_for (ma_policy (sv_args sv))) ps"
    using assms by (cases outcome) (auto simp: shape split: if_splits)
  then show "n = csrf_warning (ma_policy (sv_args sv)) * warning_views sv"
    and "list_all (built_for (ma_policy (sv_args sv))) ps"
    by blast+
  assume "backs st sv"
  with assms show "map fst ps = build_patterns st"
    by (cases outcome) (auto simp: shape backs_def build_patterns_def split: if_splits)
qed

lemma constructed_view:
  assumes "construct cv obj_text build_model kernel_spec sa ma = (n, Inr (sv, va))"
  shows "sv_args sv = ma" and "n = csrf_warning (ma_policy ma)"
    and "sv_run_view sv = standing RunView (ma_policy ma) (Some (sv_config sv))"
  using assms
  by (auto simp: construct_def Let_def new_agui_view_def settled_config_def bind_result_Inr
      split: sum.splits prod.splits)

section \<open>Requests under the CSRF middleware\<close>

text \<open>
  \<open>lets_through\<close> is Django's middleware: it is told the flag of the view and sees the request.
  What is relied on is its documented rule for a view that is not exempt.
\<close>

definition safe_methods :: "string list" where
  "safe_methods = [''GET'', ''HEAD'', ''OPTIONS'', ''TRACE'']"

definition checks_tokens :: "(bool \<Rightarrow> http_request \<Rightarrow> bool) \<Rightarrow> (http_request \<Rightarrow> bool) \<Rightarrow> bool" where
  "checks_tokens lets_through token \<longleftrightarrow>
     (\<forall>rq. lets_through False rq \<longrightarrow> rq_method rq \<in> set safe_methods \<or> token rq)"

fun resolve_built :: "(route \<times> 'b) list \<Rightarrow> string \<Rightarrow> ('b \<times> string option) option" where
  "resolve_built [] path = None"
| "resolve_built ((r, v) # rest) path =
     (case match_route r path of Some captured \<Rightarrow> Some (v, captured) | None \<Rightarrow> resolve_built rest path)"

text \<open>
  A request to the mount: the matched view's flag goes to the middleware, its three arguments to
  \<open>aauthorize\<close>. \<open>None\<close> stands for a path that is not mounted; the middleware answers with a 403.
\<close>

definition guarded_dispatch ::
    "(bool \<Rightarrow> http_request \<Rightarrow> bool) \<Rightarrow> (bool \<times> 'u option \<times> 'z option \<Rightarrow> http_request \<Rightarrow> nat option) \<Rightarrow>
     't rendering \<Rightarrow> ('h, 's, 't) site \<Rightarrow> (route \<times> ('u, 'z, 'c) built_view) list \<Rightarrow> string \<Rightarrow>
     http_request \<Rightarrow> 's \<Rightarrow> ((string + 'h served response) \<times> 's) option" where
  "guarded_dispatch lets_through aauthorize rd st ps path rq s =
     (case resolve_built ps path of
        None \<Rightarrow> None
      | Some (bv, captured) \<Rightarrow>
          Some (if lets_through (bv_csrf_exempt bv) rq
                then serve_view rd (st\<lparr>st_deny := aauthorize (bv_auth bv)\<rparr>) (bv_view bv) captured rq s
                else (Inr (EmptyResponse 403), s)))"

lemma resolve_built_Some:
  "list_all (built_for p) ps \<Longrightarrow> resolve_built ps path = Some (bv, captured) \<Longrightarrow>
   resolve (map fst ps) path = Some (bv_view bv, captured) \<and> bv_auth bv = auth_of p
   \<and> bv_csrf_exempt bv = resolve_csrf_exempt (pl_csrf_exempt p)"
  by (induction ps path rule: resolve_built.induct) (auto simp: built_for_def split: option.splits)

lemma gets_change_nothing:
  assumes "rq_method rq = ''GET''"
  shows "snd (serve_view rd st v captured rq s) = s"
proof (cases "st_deny st rq")
  case None
  with assms show ?thesis
    by (cases v; cases captured)
      (simp_all add: serve_view_def serving_def endpoint_of_def view_defs)
qed (simp add: site_gate.gate)

lemma safe_requests_change_nothing:
  assumes "rq_method rq \<in> set safe_methods"
  shows "snd (serve_view rd st v captured rq s) = s"
proof (cases "rq_method rq = ''GET''")
  case True
  then show ?thesis by (rule gets_change_nothing)
next
  case False
  with assms have "rq_method rq \<notin> set (methods_of v captured)"
    by (cases v; cases captured) (auto simp: safe_methods_def methods_of_def)
  then show ?thesis
    using site_gate.only_listed_methods_act [where rd = rd and st = st and v = v and captured = captured
      and rq = rq and s = s] by blast
qed

text \<open>
  C35. A mount that asks for CSRF protection has it on every route: whatever changes anything
  behind a server constructed with \<open>csrf_exempt=False\<close> is a request that carried a token, of a
  caller the policy admits, for a mounted route, by a method of that route that is not a safe one.
\<close>

theorem effects_need_a_token_and_a_caller:
  assumes "construct cv obj_text build_model kernel_spec sa ma = (n, Inr (sv, va))"
    and "url_patterns defaults sv = (m, Inr ps)" and "backs st sv"
    and "pl_csrf_exempt (ma_policy ma) = Some False" and "checks_tokens lets_through token"
    and "guarded_dispatch lets_through aauthorize rd st ps path rq s = Some (answered, s')" and "s' \<noteq> s"
  shows "token rq \<and> aauthorize (auth_of (ma_policy ma)) rq = None
    \<and> (\<exists>v captured. mounted st path v captured
        \<and> rq_method rq \<in> set (methods_of v captured) \<and> rq_method rq \<notin> set safe_methods)"
proof -
  note sv = constructed_view [OF assms(1)]
  have built: "list_all (built_for (ma_policy ma)) ps" "map fst ps = build_patterns st"
    using urls_built [OF assms(2)] sv assms(3) by simp_all
  obtain bv captured where r: "resolve_built ps path = Some (bv, captured)"
    and served: "(if lets_through (bv_csrf_exempt bv) rq
       then serve_view rd (st\<lparr>st_deny := aauthorize (bv_auth bv)\<rparr>) (bv_view bv) captured rq s
       else (Inr (EmptyResponse 403), s)) = (answered, s')"
    using assms(6) by (auto simp: guarded_dispatch_def split: option.splits)
  from resolve_built_Some [OF built(1) r] built(2) assms(4)
  have bv: "mounted st path (bv_view bv) captured" "bv_auth bv = auth_of (ma_policy ma)"
      "\<not> bv_csrf_exempt bv"
    by (simp_all add: resolve_csrf_exempt_def flip: resolve_mounted)
  let ?st = "st\<lparr>st_deny := aauthorize (auth_of (ma_policy ma))\<rparr>"
  from served bv(2,3) assms(7) have through: "lets_through False rq"
    by (cases "lets_through False rq") simp_all
  with served bv(2,3) have "serve_view rd ?st (bv_view bv) captured rq s = (answered, s')" by simp
  with assms(7) have effect: "snd (serve_view rd ?st (bv_view bv) captured rq s) \<noteq> s" by simp
  from site_gate.only_listed_methods_act [OF this]
  have "st_deny ?st rq = None \<and> rq_method rq \<in> set (methods_of (bv_view bv) captured)" .
  moreover have "rq_method rq \<notin> set safe_methods"
    using effect safe_requests_change_nothing [where rq = rq and s = s and v = "bv_view bv"] by blast
  ultimately show ?thesis
    using assms(5) through bv(1) unfolding checks_tokens_def by fastforce
qed

text \<open>
  What building costs: an unstated stance is warned of once by the run view and once more by each
  endpoint of \<open>persistence/\<close>, and the latter again whenever \<open>urls\<close> is read; a coroutine limiter
  for \<open>transcribe/\<close> passes the constructor and is refused there.
\<close>

theorem every_write_endpoint_warns:
  assumes "construct cv obj_text build_model kernel_spec sa ma = (n, Inr (sv, va))"
    and "url_patterns defaults sv = (m, Inr ps)"
  shows "n + m = csrf_warning (ma_policy ma) * (1 + warning_views sv)"
  using urls_built(1) [OF assms(2)] constructed_view [OF assms(1)] by simp

section \<open>An instance\<close>

definition strict_policy :: "(unit, unit) request_policy" where
  "strict_policy = \<lparr>pl_require_authenticated = False, pl_get_user = None, pl_authorize = None,
     pl_csrf_exempt = Some False\<rparr>"

definition threads_only :: "(unit, unit) mount_args" where
  "threads_only = \<lparr>ma_policy = strict_policy, ma_skills = False, ma_threads = True,
     ma_transcription = False, ma_transcribe_throttle = None, ma_namespace = DEFAULT_NAMESPACE\<rparr>"

definition bare_server :: "(unit, unit, unit, unit, unit, unit) server_args" where
  "bare_server = \<lparr>sa_settings = [], sa_named = [], sa_registry = [], sa_config = Some (va_config hook_only),
     sa_specs = None, sa_mcp = None, sa_attachments = False, sa_throttle_is_async = None,
     sa_view = hook_only\<rparr>"

text \<open>One row, there or deleted.\<close>

definition one_row :: "(bool, unit) conversation_store" where
  "one_row = \<lparr>cs_list = \<lambda>_ _ _. Inr [], cs_load = \<lambda>_ _ _. Inr None, cs_exists = \<lambda>_ _ there. Inr there,
     cs_rename = \<lambda>_ _ _ there. (Inr (), there), cs_delete = \<lambda>_ _ _. (Inr (), False)\<rparr>"

definition one_row_site :: "(model_message list, bool, unit) site" where
  "one_row_site = \<lparr>st_deny = \<lambda>_. None, st_endpoint = \<lparr>ep_deny = \<lambda>_. None, ep_throttle = None, ep_parse = \<lambda>_. Inl 0,
       ep_steps = None, ep_threads = \<lparr>co_is_null = False, co_load = \<lambda>_ _ _. Inr None, co_exists = \<lambda>_ _ there. Inr there\<rparr>,
       ep_row_parse = \<lambda>_. None\<rparr>,
     st_catalog = [], st_steps = None, st_skills = None, st_threads = Some one_row, st_activities = None,
     st_attachments = None, st_transcribe = None, st_transcribe_throttle = None, st_run_limit = 1,
     st_thread_limit = 1, st_upload_limits = \<lparr>max_upload_bytes = 0, allowed_types = []\<rparr>,
     st_audio_limits = \<lparr>max_upload_bytes = 0, allowed_types = []\<rparr>\<rparr>"

definition delete_request :: http_request where
  "delete_request = plain_request\<lparr>rq_method := ''DELETE''\<rparr>"

definition plain_rendering :: "unit rendering" where
  "plain_rendering = \<lparr>rd_isoformat = \<lambda>_. [], rd_digit = \<lambda>_. None, rd_parse = \<lambda>_. None, rd_dump = \<lambda>_. JNull,
     rd_loads = \<lambda>_. None, rd_repr = \<lambda>_. []\<rparr>"

text \<open>A middleware and a token check: the token is the address the request comes from.\<close>

definition token_check :: "http_request \<Rightarrow> bool" where
  "token_check rq \<longleftrightarrow> rq_remote_addr rq = None"

definition token_middleware :: "bool \<Rightarrow> http_request \<Rightarrow> bool" where
  "token_middleware exempt rq \<longleftrightarrow> exempt \<or> rq_method rq \<in> set safe_methods \<or> token_check rq"

definition bare_object :: "(unit, unit, (unit, unit) ag_ui_config) server_object" where
  "bare_object = \<lparr>sv_args = threads_only, sv_steps = False, sv_attachments = False,
     sv_config = va_config hook_only, sv_run_view = standing RunView strict_policy (Some (va_config hook_only))\<rparr>"

lemma bare_constructed:
  "\<exists>va. construct plain_conversions (\<lambda>_. []) (\<lambda>_ _ _. Inr ()) (\<lambda>_. None) bare_server threads_only
     = (0, Inr (bare_object, va))"
  by (simp add: construct_def bare_server_def threads_only_def strict_policy_def bare_object_def Let_def
      new_agui_view_def settled_config_def check_specs_def resolve_spec_source_def refused_def
      check_removed_settings_def check_no_dotted_paths_def with_registry_prompts_def registry_prompts_def
      require_a_model_def csrf_warning_def warns_csrf_unstated_def hook_only_def map_filter_simps)

definition bare_patterns :: "(route \<times> (unit, unit, (unit, unit) ag_ui_config) built_view) list" where
  "bare_patterns = (case snd (url_patterns (Inl []) bare_object) of Inr ps \<Rightarrow> ps | Inl _ \<Rightarrow> [])"

lemma bare_urls: "url_patterns (Inl []) bare_object = (0, Inr bare_patterns)"
  by (simp add: bare_patterns_def url_patterns_def bare_object_def threads_only_def strict_policy_def
      view_constructors csrf_warning_def warns_csrf_unstated_def Let_def)

lemma bare_deleted:
  "guarded_dispatch token_middleware (\<lambda>_ _. None) plain_rendering one_row_site bare_patterns ''threads/a/''
     delete_request True = Some (Inr (EmptyResponse 204), False)"
proof -
  have "resolve_built bare_patterns ''threads/a/'' = Some (standing ThreadsView strict_policy (Some (va_config hook_only)), Some ''a'')"
    by (simp add: bare_patterns_def url_patterns_def bare_object_def threads_only_def
        view_constructors literal_route_def captured_route_def match_route_def segment_def Let_def)
  then show ?thesis
    by (simp add: guarded_dispatch_def standing_def token_middleware_def token_check_def delete_request_def
        plain_request_def strict_policy_def serve_view_def serving_def one_row_site_def one_row_def
        threads_view_def thread_detail_def)
qed

theorem effects_need_a_token_and_a_caller_witness:
  "token_check delete_request
   \<and> (\<exists>v captured. mounted one_row_site ''threads/a/'' v captured
        \<and> rq_method delete_request \<in> set (methods_of v captured)
        \<and> rq_method delete_request \<notin> set safe_methods)"
proof -
  have "backs one_row_site bare_object"
    by (simp add: backs_def one_row_site_def bare_object_def threads_only_def)
  moreover have "pl_csrf_exempt (ma_policy threads_only) = Some False"
    by (simp add: threads_only_def strict_policy_def)
  moreover have "checks_tokens token_middleware token_check"
    by (simp add: checks_tokens_def token_middleware_def)
  ultimately show ?thesis
    using bare_constructed effects_need_a_token_and_a_caller [OF _ bare_urls _ _ _ bare_deleted] by blast
qed

theorem every_write_endpoint_warns_witness:
  "\<exists>n va m ps. construct plain_conversions (\<lambda>_. []) (\<lambda>_ _ _. Inr ()) (\<lambda>_. None) bare_server threads_only
       = (n, Inr (bare_object, va)) \<and> url_patterns (Inl []) bare_object = (m, Inr ps)
     \<and> n + m = csrf_warning strict_policy * (1 + warning_views bare_object)"
proof -
  obtain va where c: "construct plain_conversions (\<lambda>_. []) (\<lambda>_ _ _. Inr ()) (\<lambda>_. None) bare_server threads_only
      = (0, Inr (bare_object, va))"
    using bare_constructed by blast
  from every_write_endpoint_warns [OF c bare_urls] c bare_urls show ?thesis
    by (simp add: threads_only_def)
qed

end
