(* ===== verification/Scenario.thy ===== *)
theory Scenario
  imports Fixture Subagents
begin

text \<open>
  The scenario that \<open>scripts/generate_subagent_fixture.py\<close> records: its scripted models, its one
  tool, the request, and what the observer of \<open>Subagents\<close> announces of the two delegations. The
  agents that play the scripts belong to pydantic-ai; of a child's run only the calls and the
  results it reports are given here.
\<close>

section \<open>The scripts\<close>

text \<open>The tool: \<open>Inl\<close> is the retry it asks for.\<close>

definition lookup_docs :: "ustr \<Rightarrow> ustr + ustr" where
  "lookup_docs query =
     (if query = [] then Inl (ustr ''Pass the phrase to look up.'')
      else Inr (ustr ''Three passages mention '' @ query @ ustr ''.''))"

datatype scripted_step = ToolStep "(nat \<times> string \<times> ustr \<times> string) list" | TextStep ustr | FailStep string

definition scripted_call :: "string \<Rightarrow> ustr \<Rightarrow> string \<Rightarrow> scripted_step" where
  "scripted_call name args tool_call_id = ToolStep [(0, name, args, tool_call_id)]"

text \<open>One request of the model takes the next step: it is raised or streamed, and gone.\<close>

fun scripted :: "scripted_step list \<Rightarrow> (string + scripted_step) \<times> scripted_step list" where
  "scripted [] = (Inl ''IndexError'', [])"
| "scripted (FailStep e # remaining) = (Inl e, remaining)"
| "scripted (step # remaining) = (Inr step, remaining)"

text \<open>A quotation mark is the character 34.\<close>

definition quoted :: "string \<Rightarrow> ustr" where
  "quoted s = 34 # ustr s @ [34]"

definition query_args :: "string \<Rightarrow> ustr" where
  "query_args q = ustr ''{'' @ quoted ''query'' @ ustr '': '' @ quoted q @ ustr ''}''"

definition task_args :: "string \<Rightarrow> string \<Rightarrow> ustr" where
  "task_args agent task =
     ustr ''{'' @ quoted ''agent_name'' @ ustr '': '' @ quoted agent @ ustr '', ''
     @ quoted ''task'' @ ustr '': '' @ quoted task @ ustr ''}''"

definition researcher_steps :: "scripted_step list" where
  "researcher_steps =
     [scripted_call ''lookup_docs'' (query_args ''settlement'') ''sub-1'',
      scripted_call ''lookup_docs'' (query_args []) ''sub-2'',
      TextStep (ustr ''Three passages mention settlement.'')]"

definition auditor_steps :: "scripted_step list" where
  "auditor_steps = [FailStep ''the auditor model went away'']"

definition parent_steps :: "scripted_step list" where
  "parent_steps =
     [scripted_call ''delegate_task'' (task_args ''researcher'' ''Find settlement passages.'') ''call-1'',
      scripted_call ''delegate_task'' (task_args ''auditor'' ''Check them against the ledger.'') ''call-2'',
      TextStep (ustr ''The handbook mentions settlement three times; the ledger check did not run.'')]"

definition run_input_document :: json where
  "run_input_document = json_obj
     [(''threadId'', JStr (ustr ''thread-fixture'')), (''runId'', JStr (ustr ''run-fixture'')),
      (''state'', json_obj []),
      (''messages'', JList [json_obj
         [(''id'', JStr (ustr ''user-1'')), (''role'', JStr (ustr ''user'')),
          (''content'', JStr (ustr ''Find the settlement passages and check them.''))]]),
      (''tools'', JList []), (''context'', JList []), (''forwardedProps'', json_obj [])]"

section \<open>What a script plays\<close>

text \<open>The steps in their order until one fails; a script that is used up raises.\<close>

fun play :: "nat \<Rightarrow> scripted_step list \<Rightarrow> scripted_step list \<times> string option" where
  "play 0 remaining = ([], None)"
| "play (Suc n) remaining =
     (case scripted remaining of
        (Inl e, _) \<Rightarrow> ([], Some e)
      | (Inr step, rest) \<Rightarrow> (case play n rest of (steps, failed) \<Rightarrow> (step # steps, failed)))"

definition fails :: "scripted_step \<Rightarrow> bool" where
  "fails step \<longleftrightarrow> (case step of FailStep _ \<Rightarrow> True | _ \<Rightarrow> False)"

lemma script_plays_in_order:
  "list_all (\<lambda>step. \<not> fails step) steps \<Longrightarrow> n \<le> length steps \<Longrightarrow> play n steps = (take n steps, None)"
proof (induction n arbitrary: steps)
  case (Suc n)
  then obtain step rest where "steps = step # rest" by (cases steps) simp_all
  with Suc show ?case by (cases step) (simp_all add: fails_def)
qed simp

lemma used_up_script_raises:
  "list_all (\<lambda>step. \<not> fails step) steps \<Longrightarrow> length steps < n \<Longrightarrow> play n steps = (steps, Some ''IndexError'')"
proof (induction steps arbitrary: n)
  case Nil
  then show ?case by (cases n) simp_all
next
  case (Cons step rest)
  then obtain k where "n = Suc k" "length rest < k" by (cases n) simp_all
  with Cons show ?case by (cases step) (simp_all add: fails_def)
qed

section \<open>What the client is told\<close>

definition result_of_tool :: "ustr + ustr \<Rightarrow> result_part" where
  "result_of_tool r = (case r of Inl _ \<Rightarrow> RetryPart | Inr _ \<Rightarrow> ReturnPart ''success'')"

definition researcher_call :: observed_call where
  "researcher_call = \<lparr>oc_tool = ''delegate_task'', oc_id = ''call-1'',
     oc_args = fmap_of_list [(''agent_name'', JStr (ustr ''researcher'')),
       (''task'', JStr (ustr ''Find settlement passages.''))],
     oc_child = [ChildToolCall ''sub-1'' ''lookup_docs'',
       ChildToolResult ''sub-1'' ''lookup_docs'' (result_of_tool (lookup_docs (ustr ''settlement''))),
       ChildToolCall ''sub-2'' ''lookup_docs'',
       ChildToolResult ''sub-2'' ''lookup_docs'' (result_of_tool (lookup_docs [])), ChildOther],
     oc_ends = Returns ()\<rparr>"

definition auditor_call :: observed_call where
  "auditor_call = \<lparr>oc_tool = ''delegate_task'', oc_id = ''call-2'',
     oc_args = fmap_of_list [(''agent_name'', JStr (ustr ''auditor'')),
       (''task'', JStr (ustr ''Check them against the ledger.''))],
     oc_child = [], oc_ends = Raises ''ModelRetry''\<rparr>"

definition step_event :: "step_phase \<Rightarrow> string \<Rightarrow> string \<Rightarrow> bool option \<Rightarrow> event" where
  "step_event phase status call ok =
     subagent_progress ''call-1'' (ustr ''researcher'') phase (ustr status) call ''lookup_docs'' ok"

text \<open>
  The announcements of the checked-in \<open>tests/fixtures/subagent_progress_stream.json\<close>, in its order.
\<close>

lemma fixture_announcements:
  "announcements str_of ''delegate_task'' researcher_call =
     [SubagentStarted ''subagent-call-1'' (ustr ''researcher'') ''call-1'',
      step_event ToolCallStep ''researcher: calling lookup_docs'' ''sub-1'' None,
      step_event ToolResultStep ''researcher: lookup_docs returned'' ''sub-1'' (Some True),
      step_event ToolCallStep ''researcher: calling lookup_docs'' ''sub-2'' None,
      step_event ToolResultStep ''researcher: lookup_docs failed'' ''sub-2'' (Some False),
      SubagentFinished ''subagent-call-1'']"
  "announcements str_of ''delegate_task'' auditor_call =
     [SubagentStarted ''subagent-call-2'' (ustr ''auditor'') ''call-2'',
      SubagentError ''subagent-call-2'' (ustr ''auditor failed'')]"
  by (simp_all add: announcements_def researcher_call_def auditor_call_def delegation_of_def
      lifecycle_event_def subagent_lifecycle_def subagent_run_id_def child_steps_def child_progress_def
      map_filter_simps result_of_tool_def lookup_docs_def closing_phase_def step_event_def ustr_def)

lemma fixture_passes_the_client:
  "client_check [] [] (announcements str_of ''delegate_task'' researcher_call
     @ announcements str_of ''delegate_task'' auditor_call) = Some []"
  by (simp add: fixture_announcements step_event_def subagent_progress_def)

end
