(* ===== verification/Spec2Isabelle.thy ===== *)
theory Spec2Isabelle
  imports StripBinary StreamedIds LendStored Throttle ContinuedHistory Lockstep StreamFilters Teardown
    Subagents RunIndex ThreadIndex Uploads ScopedStore Catalogs AgentSession RunEndpoint
    Config RunParts Server Charts Transcription Pipeline Requests
    Fixture DocsCheck Mount Scenario
begin

text \<open>
  \<^bold>\<open>django-ag-ui, verified.\<close> The package serves a Pydantic-AI agent over the AG-UI protocol: a
  Django project constructs an \<open>AGUIServer\<close>, mounts its routes, and each POST to the run endpoint
  streams one run's events to the browser. All of it is Python under \<open>django_ag_ui/\<close>; paths below
  are relative to that directory, those under \<open>scripts/\<close> to the repository.

  \<^bold>\<open>The parts and how they meet.\<close> A request passes the server's policy and the view's checks, a
  session is assembled from what the endpoint is configured with, and the session composes the
  adapter's event stream with filters, injectors, the transcript, the heartbeat and the guard
  against disconnects. Whichever way the run ends, its exchange is stored. The other endpoints read
  and change what runs left behind.

  \<^item> \<open>Prelude\<close>: text as code points, Python's dictionaries and queues, exceptions as sums.
    \<open>Wire\<close>: JSON, messages and events as \<open>ag_ui.core\<close> has them. \<open>Http\<close>: requests, answers, the
    upload guard, and the locales \<open>gated_view\<close> and \<open>routed_view\<close> of every endpoint.
  \<^item> \<open>Transcript\<close>, \<open>Lending\<close>, \<open>StreamedIds\<close> (\<open>agent/run_transcript.py\<close>): recording a run's
    events, the messages rebuilt from them, and giving a stored dump the ids the client saw.
    \<open>LendStored\<close> (\<open>agent/lend_stored_ids.py\<close>): the same for the prefix of a resumed run.
    \<open>Outcome\<close> (\<open>agent/stamp_outcome.py\<close>, \<open>agent/outcome_agui_adapter.py\<close>) and \<open>StripBinary\<close>
    (\<open>agent/strip_binary_content.py\<close>): what else a dump goes through before it is stored.
    \<open>ContinuedHistory\<close> (\<open>agent/continued_history.py\<close>): where a resumed run cuts its snapshot.
  \<^item> \<open>Context\<close> (\<open>agent/render_untrusted_context.py\<close>, \<open>agent/attachment_context_items.py\<close>,
    \<open>agent/build_untrusted_context.py\<close>): client text fenced off from the operator's.
  \<^item> \<open>StreamFilters\<close>, \<open>Lockstep\<close>, \<open>Subagents\<close>, \<open>Teardown\<close>: the stages of the stream
    (\<open>agent/reasoning_filter.py\<close>, \<open>agent/inject_*.py\<close>, \<open>agent/utils.py\<close>,
    \<open>agent/stamp_approval_prompts.py\<close>, \<open>agent/subagent_*.py\<close>, \<open>agent/heartbeat_stream.py\<close>,
    \<open>agent/guarded_stream.py\<close>). The race between a blocked run and a delegation's progress is a
    step relation with the order of asyncio's callbacks; time in the heartbeat is a number.
  \<^item> \<open>AgentSession\<close> (\<open>agent/agent_session.py\<close>): the composition, what the model is told, and the
    three exits with what each of them stores. \<open>Pipeline\<close> puts the race between the session's
    inner and outer stages and follows a run through all of them.
  \<^item> \<open>RunEndpoint\<close>, \<open>RunParts\<close> (\<open>agent/agui_view.py\<close>): the request path with resume and fork, and
    the tools, model, instructions and dependencies a session is handed. \<open>Requests\<close> opens the
    session on both and follows a conversation from one run's row to the next run's.
  \<^item> \<open>Throttle\<close> (\<open>agent/fixed_window_throttle.py\<close>), \<open>RunIndex\<close> (\<open>agent/runs_view.py\<close>), \<open>Catalogs\<close>
    (\<open>agent/tools_view.py\<close>, \<open>skills/\<close>), \<open>ThreadIndex\<close> (\<open>persistence/threads_view.py\<close>), \<open>Uploads\<close>
    (\<open>persistence/attachments_view.py\<close>, \<open>persistence/transcribe_view.py\<close>), \<open>Transcription\<close>
    (\<open>contrib/transcription/\<close>, \<open>persistence/null_transcription_backend.py\<close>), \<open>ScopedStore\<close>
    (\<open>persistence/scoped_step_store.py\<close>): the endpoints and stores beside the run.
  \<^item> \<open>Config\<close> (\<open>config/\<close>, \<open>conf.py\<close>, \<open>check_*.py\<close>) and \<open>Server\<close> (\<open>agent/agui_server.py\<close>): settings,
    construction and the mount. \<open>Mount\<close> (the constructors of all the views) builds that mount from
    a server's arguments and puts the CSRF middleware in front of it. \<open>Charts\<close>: what a project
    pushes to the page by itself.
  \<^item> \<open>Fixture\<close>, \<open>Scenario\<close> (\<open>scripts/generate_subagent_fixture.py\<close>) and \<open>DocsCheck\<close>
    (\<open>scripts/check_docs_snippets.py\<close>), beside the package: the recording of a run that its tests
    compare with, and the check of the documentation's snippets.

  \<^bold>\<open>What is shown.\<close> Storage: the rebuilt messages are what streamed, ids are lent to their own
  message and never twice, bytes the server made are never stored and the client's never lost, each
  exit stores prior conversation and exchange, a resume overwrites no other thread and stores the
  ids its client saw again. Streaming: the
  race loses and reorders no event, always ends within a bound and can always finish; sink entries
  surface in place; delegations are bracketed however they interleave; the heartbeat paces the
  stream; a disconnect tears down in order; through all stages together the client gets the whole
  run, and one that leaves leaves a prefix of it. Boundaries: client context cannot leave its fence and
  keeps its budget, the limiter and the upload guard hold their limits, only acceptable clips reach
  the transcription API, scopes without a colon are
  isolated, tool names never collide. Configuration: a key is read or refused, a refusal is
  deserved, the mount serves exactly its routes behind one gate, and where it asks
  for CSRF protection nothing changes without a token. Charts are accepted exactly
  when the client draws them. The scripts: a recording loses only names and times, and the
  documentation passes exactly when every snippet parses, imports and binds.

  \<^bold>\<open>Interfaces.\<close> \<open>gated_view\<close> (authentication first) and its extension
  \<open>routed_view\<close> (then the methods it lists) are interpreted by every endpoint and by the whole mount;
  \<open>keyed_store\<close>, the contract of a step store, on the ledger and again on the scoped ledger.

  \<^bold>\<open>Parameters.\<close> Code outside this repository is an argument: the adapter and its dump, the stores,
  the cache, the multipart parse (as the chunks and files it yields), the MCP bridge, the builders
  of specs, models and agents, the transcription SDK, \<open>kernel_spec\<close>, authentication, JSON decoding,
  parsing Python, the installed packages, the CSRF middleware, \<open>uuid4\<close> and the clock.
  What is relied on is a named predicate (\<open>counting_cache\<close>, \<open>excludes\<close>, the locale assumptions).

  \<^bold>\<open>Bounds and recursion.\<close> No fuel is used: every recursion is structural or has its termination
  proof, streams are finite lists of what happened, and the step relation of \<open>Lockstep\<close> is bounded
  by \<open>race_is_bounded\<close>. Floats are rationals, the infinities and NaN a separate constructor where
  the code tests for them.

  \<^bold>\<open>Not modelled.\<close> The protocol classes and re-exports, the wording of log lines and most errors, the WSGI warning, audit timing,
  the weak ordering of two tasks woken in one loop iteration beyond what \<open>Lockstep\<close> allows, the
  cancelling of the tasks a closed race leaves behind, and Django's own set-up in the scripts.
\<close>

end
